theory Spec2Isabelle
  imports Main "HOL-Library.Char_ord" "HOL-Library.List_Lexorder"
begin

section \<open>Cells, rows and Python string helpers\<close>

text \<open>
  A spreadsheet cell as the merge script sees it after \<^verbatim>\<open>pd.read_excel\<close>: either the
  missing marker (\<^verbatim>\<open>NaN\<close>, for which \<^verbatim>\<open>pd.isna\<close> holds) or a text value.
  Numeric and date cells are outside this model. A string is a list of characters, one
  \<open>char\<close> per code point; the helpers below follow Python on the code points 0 to 255.
\<close>

datatype cell = NaN | Str string

text \<open>A row (a pandas Series) is a finite map from column name to cell.\<close>

type_synonym row = "string \<rightharpoonup> cell"

text \<open>\<^verbatim>\<open>row.get(key, default)\<close>\<close>

definition get :: "row \<Rightarrow> string \<Rightarrow> cell \<Rightarrow> cell" where
  "get r key dflt = (case r key of None \<Rightarrow> dflt | Some v \<Rightarrow> v)"

text \<open>\<^verbatim>\<open>pd.isna(x)\<close>\<close>

definition isna :: "cell \<Rightarrow> bool" where
  "isna c = (case c of NaN \<Rightarrow> True | Str _ \<Rightarrow> False)"

text \<open>\<^verbatim>\<open>str(x)\<close>: the missing marker prints as the three letters \<^verbatim>\<open>nan\<close>.\<close>

definition str :: "cell \<Rightarrow> string" where
  "str c = (case c of NaN \<Rightarrow> ''nan'' | Str s \<Rightarrow> s)"

text \<open>Python truth value: a float NaN is truthy, a string is truthy unless it is empty.\<close>

definition truthy :: "cell \<Rightarrow> bool" where
  "truthy c = (case c of NaN \<Rightarrow> True | Str s \<Rightarrow> s \<noteq> [])"

text \<open>\<^verbatim>\<open>str.isspace\<close> on one character (code points below 256).\<close>

definition is_space :: "char \<Rightarrow> bool" where
  "is_space c = (let n = (of_char c :: nat)
                 in (9 \<le> n \<and> n \<le> 13) \<or> (28 \<le> n \<and> n \<le> 32) \<or> n = 133 \<or> n = 160)"

text \<open>\<^verbatim>\<open>str.lower\<close> on one character (code points below 256).\<close>

definition lower_char :: "char \<Rightarrow> char" where
  "lower_char c = (let n = (of_char c :: nat)
                   in if (65 \<le> n \<and> n \<le> 90) \<or> (192 \<le> n \<and> n \<le> 222 \<and> n \<noteq> 215)
                      then char_of (n + 32) else c)"

definition lower :: "string \<Rightarrow> string" where
  "lower s = map lower_char s"

text \<open>\<^verbatim>\<open>str.strip()\<close>: drop leading and trailing whitespace.\<close>

definition strip :: "string \<Rightarrow> string" where
  "strip s = rev (dropWhile is_space (rev (dropWhile is_space s)))"

text \<open>\<^verbatim>\<open>sep.join(parts)\<close>\<close>

fun join :: "string \<Rightarrow> string list \<Rightarrow> string" where
  "join sep [] = []"
| "join sep [x] = x"
| "join sep (x # y # ys) = x @ sep @ join sep (y # ys)"

section \<open>create-merged-catalog: scoring functions\<close>

text \<open>
  \<^verbatim>\<open>
  def clean_name(name):
      if pd.isna(name):
          return ""
      return str(name).lower().strip()
  \<close>
\<close>

definition clean_name :: "cell \<Rightarrow> string" where
  "clean_name name = (if isna name then [] else strip (lower (str name)))"

text \<open>
  \<^verbatim>\<open>
  def evaluate_description(desc):
      if pd.isna(desc) or str(desc) == 'nan' or not desc:
          return 0
      desc_str = str(desc)
      score = len(desc_str)
      if '.' in desc_str:
          score += 50
      if len(desc_str) > 100:
          score += 100
      return score
  \<close>
\<close>

definition evaluate_description :: "cell \<Rightarrow> int" where
  "evaluate_description desc =
     (if isna desc \<or> str desc = ''nan'' \<or> \<not> truthy desc then 0
      else (let desc_str = str desc;
                score0 = int (length desc_str);
                score1 = (if CHR ''.'' \<in> set desc_str then score0 + 50 else score0);
                score2 = (if length desc_str > 100 then score1 + 100 else score1)
            in score2))"

text \<open>
  \<^verbatim>\<open>
  def evaluate_seo(title, desc):
      score = 0
      if not pd.isna(title) and str(title) != 'nan':
          score += 100 + len(str(title))
      if not pd.isna(desc) and str(desc) != 'nan':
          score += 100 + len(str(desc))
      return score
  \<close>
\<close>

definition evaluate_seo :: "cell \<Rightarrow> cell \<Rightarrow> int" where
  "evaluate_seo title desc =
     (let score0 = 0;
          score1 = (if \<not> isna title \<and> str title \<noteq> ''nan''
                    then score0 + (100 + int (length (str title))) else score0);
          score2 = (if \<not> isna desc \<and> str desc \<noteq> ''nan''
                    then score1 + (100 + int (length (str desc))) else score1)
      in score2)"

section \<open>create-merged-catalog: the product index\<close>

text \<open>
  The three catalogs, named by the dictionary keys the script uses. The order of
  \<open>source_order\<close> is the insertion order of the dictionary literals
  \<^verbatim>\<open>{'square': ..., 'palka': ..., 'tbd': ...}\<close>, which is the order in which Python
  iterates them.
\<close>

datatype source = Square | Palka | Tbd

fun tag :: "source \<Rightarrow> string" where
  "tag Square = ''square''"
| "tag Palka = ''palka''"
| "tag Tbd = ''tbd''"

definition source_order :: "source list" where
  "source_order = [Square, Palka, Tbd]"

text \<open>
  One value of \<^verbatim>\<open>product_index\<close>: the rows each source contributed for a name.
  The index itself is a dictionary; it is kept as an association list in insertion order.
\<close>

type_synonym sources = "source \<Rightarrow> row list"

type_synonym pindex = "(string \<times> sources) list"

definition empty_sources :: sources where
  "empty_sources = (\<lambda>_. [])"

text \<open>\<^verbatim>\<open>clean_name(row.get('Item Name', ''))\<close>\<close>

definition row_key :: "row \<Rightarrow> string" where
  "row_key r = clean_name (get r ''Item Name'' (Str []))"

text \<open>
  \<^verbatim>\<open>
  if name not in product_index:
      product_index[name] = {'square': [], 'palka': [], 'tbd': []}
  product_index[name][src].append(row)
  \<close>
\<close>

fun index_append :: "source \<Rightarrow> string \<Rightarrow> row \<Rightarrow> pindex \<Rightarrow> pindex" where
  "index_append src name r [] = [(name, empty_sources(src := [r]))]"
| "index_append src name r ((k, e) # rest) =
     (if k = name then (k, e(src := e src @ [r])) # rest
      else (k, e) # index_append src name r rest)"

text \<open>The body of one indexing loop: rows whose cleaned name is empty are skipped.\<close>

definition index_row :: "source \<Rightarrow> row \<Rightarrow> pindex \<Rightarrow> pindex" where
  "index_row src r idx =
     (let name = row_key r in if name \<noteq> [] then index_append src name r idx else idx)"

definition index_rows :: "source \<Rightarrow> row list \<Rightarrow> pindex \<Rightarrow> pindex" where
  "index_rows src rs idx = fold (index_row src) rs idx"

text \<open>The three indexing loops, in the order of the script: Square, Palka, TBD.\<close>

definition product_index :: "row list \<Rightarrow> row list \<Rightarrow> row list \<Rightarrow> pindex" where
  "product_index square_df palka_df tbd_df =
     index_rows Tbd tbd_df (index_rows Palka palka_df (index_rows Square square_df []))"

section \<open>create-merged-catalog: the merge loop\<close>

text \<open>\<^verbatim>\<open>sources[s][0] if sources[s] else None\<close>\<close>

definition first_row :: "row list \<Rightarrow> row option" where
  "first_row rs = (case rs of [] \<Rightarrow> None | r # _ \<Rightarrow> Some r)"

text \<open>\<^verbatim>\<open>best.get(key, '') if best is not None else ''\<close>\<close>

definition field_of :: "row option \<Rightarrow> string \<Rightarrow> cell" where
  "field_of best key = (case best of None \<Rightarrow> Str [] | Some r \<Rightarrow> get r key (Str []))"

text \<open>
  \<^verbatim>\<open>max(scores, key=scores.get)\<close> over a dictionary: one scan in insertion order that
  replaces the running best only by a strictly greater score.
\<close>

fun max_scan :: "('a \<Rightarrow> int) \<Rightarrow> 'a \<Rightarrow> 'a list \<Rightarrow> 'a" where
  "max_scan score best [] = best"
| "max_scan score best (x # xs) =
     (if score x > score best then max_scan score x xs else max_scan score best xs)"

definition max_key :: "(source \<Rightarrow> int) \<Rightarrow> source" where
  "max_key score = max_scan score (hd source_order) (tl source_order)"

text \<open>The base record: Square's row if present, else Palka's, else TBD's.\<close>

definition base_record :: "(source \<Rightarrow> row option) \<Rightarrow> row option" where
  "base_record best =
     (case best Square of Some r \<Rightarrow> Some r
      | None \<Rightarrow> (case best Palka of Some r \<Rightarrow> Some r
                 | None \<Rightarrow> best Tbd))"

text \<open>
  The state of one loop iteration is the pair \<^verbatim>\<open>(merged_row, merge_notes)\<close>.
  Each block of the loop body is one state transformer.
\<close>

type_synonym mstate = "row \<times> string list"

definition descriptions :: "(source \<Rightarrow> row option) \<Rightarrow> source \<Rightarrow> cell" where
  "descriptions best s = field_of (best s) ''Description''"

definition desc_scores :: "(source \<Rightarrow> row option) \<Rightarrow> source \<Rightarrow> int" where
  "desc_scores best s = evaluate_description (descriptions best s)"

definition best_desc_source :: "(source \<Rightarrow> row option) \<Rightarrow> source" where
  "best_desc_source best = max_key (desc_scores best)"

definition select_description :: "(source \<Rightarrow> row option) \<Rightarrow> mstate \<Rightarrow> mstate" where
  "select_description best st =
     (case st of (merged_row, merge_notes) \<Rightarrow>
        if desc_scores best (best_desc_source best) > 0
        then (merged_row(''Description'' \<mapsto> descriptions best (best_desc_source best)),
              merge_notes @ [''desc:'' @ tag (best_desc_source best)])
        else (merged_row, merge_notes))"

definition seo_data_title :: "(source \<Rightarrow> row option) \<Rightarrow> source \<Rightarrow> cell" where
  "seo_data_title best s = field_of (best s) ''SEO Title''"

definition seo_data_desc :: "(source \<Rightarrow> row option) \<Rightarrow> source \<Rightarrow> cell" where
  "seo_data_desc best s = field_of (best s) ''SEO Description''"

definition seo_scores :: "(source \<Rightarrow> row option) \<Rightarrow> source \<Rightarrow> int" where
  "seo_scores best s = evaluate_seo (seo_data_title best s) (seo_data_desc best s)"

definition best_seo_source :: "(source \<Rightarrow> row option) \<Rightarrow> source" where
  "best_seo_source best = max_key (seo_scores best)"

definition select_seo :: "(source \<Rightarrow> row option) \<Rightarrow> mstate \<Rightarrow> mstate" where
  "select_seo best st =
     (case st of (merged_row, merge_notes) \<Rightarrow>
        if seo_scores best (best_seo_source best) > 0
        then (merged_row(''SEO Title'' \<mapsto> seo_data_title best (best_seo_source best),
                         ''SEO Description'' \<mapsto> seo_data_desc best (best_seo_source best)),
              merge_notes @ [''seo:'' @ tag (best_seo_source best)])
        else (merged_row, merge_notes))"

text \<open>
  \<^verbatim>\<open>
  if best_palka is not None and not pd.isna(best_palka.get('Categories', '')):
      merged_row['Categories'] = best_palka.get('Categories', '')
      merge_notes.append("cat:palka")
  elif best_square is not None and not pd.isna(best_square.get('Categories', '')):
      merged_row['Categories'] = best_square.get('Categories', '')
      merge_notes.append("cat:square")
  \<close>
\<close>

definition select_categories :: "(source \<Rightarrow> row option) \<Rightarrow> mstate \<Rightarrow> mstate" where
  "select_categories best st =
     (case st of (merged_row, merge_notes) \<Rightarrow>
        if best Palka \<noteq> None \<and> \<not> isna (field_of (best Palka) ''Categories'')
        then (merged_row(''Categories'' \<mapsto> field_of (best Palka) ''Categories''),
              merge_notes @ [''cat:palka''])
        else if best Square \<noteq> None \<and> \<not> isna (field_of (best Square) ''Categories'')
        then (merged_row(''Categories'' \<mapsto> field_of (best Square) ''Categories''),
              merge_notes @ [''cat:square''])
        else (merged_row, merge_notes))"

text \<open>
  \<^verbatim>\<open>
  merged_row['_merge_sources'] = ', '.join([k for k, v in sources.items() if v])
  merged_row['_merge_notes'] = ', '.join(merge_notes)
  \<close>
\<close>

definition add_metadata :: "sources \<Rightarrow> mstate \<Rightarrow> row" where
  "add_metadata srcs st =
     (case st of (merged_row, merge_notes) \<Rightarrow>
        merged_row(''_merge_sources'' \<mapsto>
                     Str (join '', '' (map tag (filter (\<lambda>k. srcs k \<noteq> []) source_order))),
                   ''_merge_notes'' \<mapsto> Str (join '', '' merge_notes)))"

text \<open>
  One iteration of the merge loop; \<open>None\<close> is the \<^verbatim>\<open>continue\<close> taken when no source
  has a row.
\<close>

definition merge_product :: "sources \<Rightarrow> row option" where
  "merge_product srcs =
     (let best = (\<lambda>s. first_row (srcs s))
      in case base_record best of
           None \<Rightarrow> None
         | Some base \<Rightarrow>
             Some (add_metadata srcs
                    (select_categories best
                      (select_seo best
                        (select_description best (base, []))))))"

text \<open>
  \<^verbatim>\<open>for product_name, sources in sorted(product_index.items()): ...
       merged_catalog.append(merged_row)\<close>
  The names are distinct, so the sort compares names only. The later
  \<^verbatim>\<open>sort_values('Item Name')\<close> of the writer only reorders these records.
\<close>

definition merged_catalog :: "row list \<Rightarrow> row list \<Rightarrow> row list \<Rightarrow> row list" where
  "merged_catalog square_df palka_df tbd_df =
     List.map_filter (\<lambda>(product_name, srcs). merge_product srcs)
       (sort_key fst (product_index square_df palka_df tbd_df))"

text \<open>The record the loop builds in the iteration for one product name, if there is one.\<close>

definition merged_record :: "row list \<Rightarrow> row list \<Rightarrow> row list \<Rightarrow> string \<Rightarrow> row option" where
  "merged_record square_df palka_df tbd_df product_name =
     (case map_of (product_index square_df palka_df tbd_df) product_name of
        None \<Rightarrow> None
      | Some srcs \<Rightarrow> merge_product srcs)"

text \<open>Views of the inputs used to state the properties of the index.\<close>

definition entry :: "pindex \<Rightarrow> string \<Rightarrow> sources" where
  "entry idx k = (case map_of idx k of None \<Rightarrow> empty_sources | Some e \<Rightarrow> e)"

definition rows_of :: "row list \<Rightarrow> row list \<Rightarrow> row list \<Rightarrow> source \<Rightarrow> row list" where
  "rows_of square_df palka_df tbd_df s =
     (case s of Square \<Rightarrow> square_df | Palka \<Rightarrow> palka_df | Tbd \<Rightarrow> tbd_df)"

definition normalized_names :: "row list \<Rightarrow> row list \<Rightarrow> row list \<Rightarrow> string set" where
  "normalized_names square_df palka_df tbd_df =
     row_key ` (set square_df \<union> set palka_df \<union> set tbd_df)"

definition indexed_names :: "row list \<Rightarrow> row list \<Rightarrow> row list \<Rightarrow> string set" where
  "indexed_names square_df palka_df tbd_df =
     normalized_names square_df palka_df tbd_df - {[]}"

text \<open>The first row of a source whose cleaned name is the given key.\<close>

definition first_seen :: "string \<Rightarrow> row list \<Rightarrow> row option" where
  "first_seen k rs = List.find (\<lambda>r. row_key r = k) rs"

text \<open>The rows the loop iteration for key \<open>k\<close> takes from each source.\<close>

definition best_rows :: "row list \<Rightarrow> row list \<Rightarrow> row list \<Rightarrow> string \<Rightarrow> source \<Rightarrow> row option" where
  "best_rows square_df palka_df tbd_df k s = first_seen k (rows_of square_df palka_df tbd_df s)"

text \<open>The columns the loop body assigns.\<close>

definition merge_fields :: "string list" where
  "merge_fields = [''Description'', ''SEO Title'', ''SEO Description'', ''Categories'',
                   ''_merge_sources'', ''_merge_notes'']"

text \<open>\<open>precedes a b\<close>: source \<open>a\<close> comes strictly before \<open>b\<close> in \<open>source_order\<close>.\<close>

definition precedes :: "source \<Rightarrow> source \<Rightarrow> bool" where
  "precedes a b = (b \<in> set (tl (dropWhile (\<lambda>x. x \<noteq> a) source_order)))"

section \<open>square_import_value_validator\<close>

text \<open>
  A data frame: its column labels in order and its rows. A row maps every column of the
  frame to a cell; a missing entry reads as \<open>NaN\<close>.
\<close>

record dataframe =
  columns :: "string list"
  rows :: "row list"

text \<open>\<^verbatim>\<open>df[field]\<close> for a column that exists.\<close>

definition column :: "dataframe \<Rightarrow> string \<Rightarrow> cell list" where
  "column d field = map (\<lambda>r. get r field NaN) (rows d)"

text \<open>\<^verbatim>\<open>Series.unique()\<close>: the distinct values in order of first appearance.\<close>

definition unique :: "'a list \<Rightarrow> 'a list" where
  "unique xs = rev (remdups (rev xs))"

definition REQUIRED_COLUMNS :: "string list" where
  "REQUIRED_COLUMNS =
     [''Reference Handle'', ''Token'', ''Item Name'', ''Variation Name'', ''SKU'',
      ''Description'', ''Categories'', ''Reporting Category'', ''SEO Title'',
      ''SEO Description'', ''Item Type'', ''Sold Online'', ''Available for Sale'',
      ''Square Online Item Visibility'']"

definition REQUIRED_VALUES :: "(string \<times> string) list" where
  "REQUIRED_VALUES =
     [(''Square Online Item Visibility'', ''Visible''),
      (''Sold Online'', ''Y''),
      (''Available for Sale'', ''Y''),
      (''Item Type'', ''Physical'')]"

text \<open>
  The entries of \<^verbatim>\<open>errors\<close>. The script formats each as a line of text; the model keeps
  the data each line is built from: the sorted missing headers; the expected literal, the
  field and the values found; the field of a missing column.
\<close>

datatype problem =
    MissingHeaders "string list"
  | UnexpectedValue string string "string list"
  | MissingColumn string

text \<open>\<^verbatim>\<open>df[field].dropna().astype(str).str.strip().unique()\<close>\<close>

definition column_values :: "dataframe \<Rightarrow> string \<Rightarrow> string list" where
  "column_values d field =
     unique (map strip (map str (filter (\<lambda>c. \<not> isna c) (column d field))))"

text \<open>The body of the loop over \<^verbatim>\<open>REQUIRED_VALUES.items()\<close>.\<close>

definition check_value :: "dataframe \<Rightarrow> string \<times> string \<Rightarrow> problem list \<Rightarrow> problem list" where
  "check_value d fe errors =
     (case fe of (field, expected) \<Rightarrow>
        if field \<in> set (columns d)
        then (let vals = column_values d field
              in if expected \<notin> set vals
                 then errors @ [UnexpectedValue expected field vals]
                 else errors)
        else errors @ [MissingColumn field])"

text \<open>
  \<^verbatim>\<open>validate_values\<close> after the file is read; the result is the list \<^verbatim>\<open>errors\<close>, all
  of which the script prints (or the success line when the list is empty).
\<close>

definition validate_values :: "dataframe \<Rightarrow> problem list" where
  "validate_values d =
     (let errors0 = [];
          missing_headers = filter (\<lambda>c. c \<notin> set (columns d)) REQUIRED_COLUMNS;
          errors1 = (if missing_headers \<noteq> []
                     then errors0 @ [MissingHeaders (sort missing_headers)]
                     else errors0)
      in fold (check_value d) REQUIRED_VALUES errors1)"

section \<open>manual-seo-updates\<close>

text \<open>
  One entry of \<^verbatim>\<open>seo_updates\<close>; the field \<open>seo_keywords\<close> is the entry's key
  \<^verbatim>\<open>"keywords"\<close>.
\<close>

record seo_update =
  name :: string
  seo_title :: string
  seo_description :: string
  seo_keywords :: string

datatype py_error = KeyError string

datatype log_line = Updated string string string | NotFound string

text \<open>The catalog, the counter and the lines printed so far.\<close>

record ustate =
  df :: dataframe
  updated_count :: int
  printed :: "log_line list"

text \<open>
  \<^verbatim>\<open>df.loc[idx, col] = v\<close> on a frame with the default integer index: the cell of row
  \<open>idx\<close> is set; a column that does not exist yet is created, empty in every other row.
\<close>

definition set_cell :: "nat \<Rightarrow> string \<Rightarrow> cell \<Rightarrow> dataframe \<Rightarrow> dataframe" where
  "set_cell idx col v d =
     \<lparr>columns = (if col \<in> set (columns d) then columns d else columns d @ [col]),
      rows = (map (\<lambda>r. if col \<in> set (columns d) then r else r(col \<mapsto> NaN)) (rows d))
               [idx := (rows d ! idx)(col \<mapsto> v)]\<rparr>"

text \<open>\<^verbatim>\<open>df[mask].index[0]\<close>: the position of the first row the mask selects.\<close>

fun first_index :: "('a \<Rightarrow> bool) \<Rightarrow> 'a list \<Rightarrow> nat option" where
  "first_index P [] = None"
| "first_index P (x # xs) = (if P x then Some 0 else map_option Suc (first_index P xs))"

text \<open>One element of \<^verbatim>\<open>df['Item Name'] == update['name']\<close>.\<close>

definition name_matches :: "seo_update \<Rightarrow> row \<Rightarrow> bool" where
  "name_matches update r = (get r ''Item Name'' NaN = Str (name update))"

text \<open>
  One iteration of the update loop. \<open>now\<close> is the text of
  \<^verbatim>\<open>datetime.now().isoformat()\<close> read in this iteration. Reading the
  \<^verbatim>\<open>Item Name\<close> column of a frame that has none raises \<^verbatim>\<open>KeyError\<close>.
\<close>

definition apply_update :: "string \<Rightarrow> seo_update \<Rightarrow> ustate \<Rightarrow> py_error + ustate" where
  "apply_update now update st =
     (if ''Item Name'' \<notin> set (columns (df st)) then Inl (KeyError ''Item Name'')
      else case first_index (name_matches update) (rows (df st)) of
             None \<Rightarrow> Inr (st\<lparr>printed := printed st @ [NotFound (name update)]\<rparr>)
           | Some idx \<Rightarrow>
               Inr \<lparr>df = set_cell idx ''_seo_updated'' (Str now)
                          (set_cell idx ''_seo_keywords'' (Str (seo_keywords update))
                            (set_cell idx ''SEO Description'' (Str (seo_description update))
                              (set_cell idx ''SEO Title'' (Str (seo_title update)) (df st)))),
                    updated_count = updated_count st + 1,
                    printed = printed st @
                      [Updated (take 50 (name update)) (seo_title update)
                               (take 80 (seo_description update))]\<rparr>)"

text \<open>The loop over \<^verbatim>\<open>seo_updates\<close>, each entry paired with the clock reading it sees.\<close>

fun run_updates :: "(string \<times> seo_update) list \<Rightarrow> ustate \<Rightarrow> py_error + ustate" where
  "run_updates [] st = Inr st"
| "run_updates ((now, update) # rest) st =
     (case apply_update now update st of
        Inl e \<Rightarrow> Inl e
      | Inr st' \<Rightarrow> run_updates rest st')"

text \<open>The content a cell shows: a missing entry reads as \<open>NaN\<close>.\<close>

definition cell_at :: "dataframe \<Rightarrow> nat \<Rightarrow> string \<Rightarrow> cell" where
  "cell_at d j f = get (rows d ! j) f NaN"

text \<open>Every row of a frame has entries only for the frame's columns.\<close>

definition wf_df :: "dataframe \<Rightarrow> bool" where
  "wf_df d = list_all (\<lambda>r. dom r \<subseteq> set (columns d)) (rows d)"

definition seo_fields :: "string list" where
  "seo_fields = [''SEO Title'', ''SEO Description'', ''_seo_keywords'', ''_seo_updated'']"

section \<open>Example inputs\<close>

definition ex_square :: row where
  "ex_square = [''Item Name'' \<mapsto> Str ''Candle'', ''SKU'' \<mapsto> Str ''C-1'',
                ''Description'' \<mapsto> Str ''A candle.'', ''SEO Title'' \<mapsto> Str ''Candle'',
                ''SEO Description'' \<mapsto> NaN, ''Categories'' \<mapsto> Str ''Home Decor'']"

definition ex_palka :: row where
  "ex_palka = [''Item Name'' \<mapsto> Str '' candle '', ''SKU'' \<mapsto> Str ''P-9'',
               ''Description'' \<mapsto> Str ''A candle!'', ''SEO Title'' \<mapsto> NaN,
               ''SEO Description'' \<mapsto> NaN, ''Categories'' \<mapsto> Str ''Crystals, Candles'']"

definition ex_tbd :: row where
  "ex_tbd = [''Item Name'' \<mapsto> Str ''CANDLE'', ''SKU'' \<mapsto> Str ''T-4'',
             ''Description'' \<mapsto> NaN, ''SEO Title'' \<mapsto> NaN,
             ''SEO Description'' \<mapsto> NaN, ''Categories'' \<mapsto> Str ''Gifts'']"

definition ex_blank :: row where
  "ex_blank = [''Item Name'' \<mapsto> NaN, ''SKU'' \<mapsto> Str ''X-0'']"

definition ex_tie :: "source \<Rightarrow> row option" where
  "ex_tie s = (case s of
       Square \<Rightarrow> Some [''Description'' \<mapsto> Str ''Warm glow.'']
     | Palka \<Rightarrow> Some [''Description'' \<mapsto> Str ''Soft glow.'']
     | Tbd \<Rightarrow> None)"

definition ex_dup :: row where
  "ex_dup = [''Item Name'' \<mapsto> Str ''CANDLE '', ''SKU'' \<mapsto> Str ''C-2'',
             ''Description'' \<mapsto> Str ''A later duplicate row with a much longer description.'']"

definition ex_lamp :: row where
  "ex_lamp = [''Item Name'' \<mapsto> Str ''Lamp'', ''SKU'' \<mapsto> Str ''T-7'',
              ''Description'' \<mapsto> NaN, ''SEO Title'' \<mapsto> NaN,
              ''SEO Description'' \<mapsto> NaN, ''Categories'' \<mapsto> NaN]"

definition ex_table :: dataframe where
  "ex_table =
     \<lparr>columns = filter (\<lambda>c. c \<noteq> ''Token'') REQUIRED_COLUMNS,
      rows = [[''Item Name'' \<mapsto> Str ''Candle'', ''Sold Online'' \<mapsto> Str ''N'',
               ''Available for Sale'' \<mapsto> Str ''Y'', ''Item Type'' \<mapsto> Str ''Physical'',
               ''Square Online Item Visibility'' \<mapsto> Str ''Visible'']]\<rparr>"

definition ex_catalog :: dataframe where
  "ex_catalog =
     \<lparr>columns = [''Item Name'', ''SKU'', ''SEO Title''],
      rows = [[''Item Name'' \<mapsto> Str ''Lamp'', ''SKU'' \<mapsto> Str ''L-1'', ''SEO Title'' \<mapsto> NaN],
              [''Item Name'' \<mapsto> Str ''Candle'', ''SKU'' \<mapsto> Str ''C-1'', ''SEO Title'' \<mapsto> NaN],
              [''Item Name'' \<mapsto> Str ''Candle'', ''SKU'' \<mapsto> Str ''C-2'',
               ''SEO Title'' \<mapsto> Str ''Old title'']]\<rparr>"

definition ex_update :: seo_update where
  "ex_update = \<lparr>name = ''Candle'', seo_title = ''Hand poured candle'',
                seo_description = ''A candle.'', seo_keywords = ''candle''\<rparr>"

definition ex_ustate :: ustate where
  "ex_ustate = \<lparr>df = ex_catalog, updated_count = 0, printed = []\<rparr>"

text \<open>The four assignments of one update, in the order of the script.\<close>

definition patch_cells :: "nat \<Rightarrow> string \<Rightarrow> seo_update \<Rightarrow> dataframe \<Rightarrow> dataframe" where
  "patch_cells idx now update d =
     set_cell idx ''_seo_updated'' (Str now)
       (set_cell idx ''_seo_keywords'' (Str (seo_keywords update))
         (set_cell idx ''SEO Description'' (Str (seo_description update))
           (set_cell idx ''SEO Title'' (Str (seo_title update)) d)))"

text \<open>The TBD example row with another category.\<close>

definition ex_tbd_toys :: row where
  "ex_tbd_toys = ex_tbd(''Categories'' \<mapsto> Str ''Toys'')"

section \<open>Properties of the scoring functions\<close>

text \<open>
  Claim C3, as the code has it. The description score is 0 for a missing cell, for the
  empty string and for the literal text \<^verbatim>\<open>nan\<close>; for every other string, a string of
  whitespace only included, it is the character length, plus 50 when the string contains
  a period, plus 100 when the length exceeds 100.
\<close>

theorem evaluate_description_score:
  "evaluate_description NaN = 0 \<and>
   evaluate_description (Str []) = 0 \<and>
   evaluate_description (Str ''nan'') = 0 \<and>
   (s \<noteq> [] \<and> s \<noteq> ''nan'' \<longrightarrow>
      evaluate_description (Str s) =
        int (length s) + (if CHR ''.'' \<in> set s then 50 else 0)
                       + (if length s > 100 then 100 else 0))"
  by (simp add: evaluate_description_def isna_def str_def truthy_def Let_def)

theorem evaluate_description_score_witness:
  "''A short one.'' \<noteq> [] \<and> ''A short one.'' \<noteq> ''nan'' \<and>
   evaluate_description (Str ''A short one.'') = 62"
  using evaluate_description_score [of "''A short one.''"] by simp

text \<open>
  The claim as stated gives every blank string the score 0. The only blank test of
  \<^verbatim>\<open>evaluate_description\<close> is \<^verbatim>\<open>not desc\<close>, which holds for the empty string alone: a
  string of three spaces is blank, \<^verbatim>\<open>strip\<close> empties it, and it scores its length 3.
\<close>

theorem evaluate_description_score_counterexample:
  "strip ''   '' = [] \<and> evaluate_description (Str ''   '') = 3"
proof -
  have "strip ''   '' = []" by code_simp
  moreover have "evaluate_description (Str ''   '') = 3"
    by (simp add: evaluate_description_def isna_def str_def truthy_def Let_def)
  ultimately show ?thesis by simp
qed

section \<open>Properties of the product index\<close>

lemma map_of_index_append:
  "map_of (index_append src nm r idx) k =
     (if k = nm then Some ((entry idx nm)(src := entry idx nm src @ [r])) else map_of idx k)"
proof (induction idx)
  case Nil
  then show ?case by (auto simp add: entry_def empty_sources_def fun_eq_iff)
next
  case (Cons p idx)
  obtain k' e where p: "p = (k', e)" by (cases p)
  show ?case
  proof (cases "k' = nm")
    case True
    then show ?thesis using p by (auto simp add: entry_def fun_eq_iff)
  next
    case False
    then show ?thesis using p Cons.IH by (auto simp add: entry_def fun_eq_iff)
  qed
qed

lemma keys_index_append_old:
  "nm \<in> fst ` set idx \<Longrightarrow> map fst (index_append src nm r idx) = map fst idx"
proof (induction idx)
  case Nil
  then show ?case by simp
next
  case (Cons p idx)
  obtain k e where p: "p = (k, e)" by (cases p)
  show ?case
  proof (cases "k = nm")
    case True
    then show ?thesis using p by simp
  next
    case False
    then have "nm \<in> fst ` set idx" using Cons.prems p by auto
    then show ?thesis using Cons.IH p False by simp
  qed
qed

lemma keys_index_append_new:
  "nm \<notin> fst ` set idx \<Longrightarrow> map fst (index_append src nm r idx) = map fst idx @ [nm]"
  by (induction idx) auto

lemma keys_index_append:
  "map fst (index_append src nm r idx) =
     (if nm \<in> fst ` set idx then map fst idx else map fst idx @ [nm])"
  by (simp add: keys_index_append_old keys_index_append_new)

lemma entry_index_row:
  "entry (index_row src r idx) k s =
     entry idx k s @ (if s = src \<and> k \<noteq> [] \<and> row_key r = k then [r] else [])"
  by (auto simp: index_row_def Let_def entry_def map_of_index_append empty_sources_def split: option.splits)

lemma entry_index_rows:
  "entry (index_rows src rs idx) k s =
     entry idx k s @ (if s = src \<and> k \<noteq> [] then filter (\<lambda>r. row_key r = k) rs else [])"
  unfolding index_rows_def
  by (induction rs arbitrary: idx) (auto simp: entry_index_row)

lemma keys_index_append_set:
  "fst ` set (index_append src nm r idx) = insert nm (fst ` set idx)"
proof (cases "nm \<in> fst ` set idx")
  case True
  have "set (map fst (index_append src nm r idx)) = set (map fst idx)"
    by (simp only: keys_index_append_old [OF True])
  then show ?thesis using True by (simp add: insert_absorb)
next
  case False
  have "set (map fst (index_append src nm r idx)) = set (map fst idx @ [nm])"
    by (simp only: keys_index_append_new [OF False])
  then show ?thesis by simp
qed

lemma keys_index_row:
  "fst ` set (index_row src r idx) = fst ` set idx \<union> ({row_key r} - {[]})"
  by (auto simp add: index_row_def Let_def keys_index_append_set)

lemma distinct_index_row:
  "distinct (map fst idx) \<Longrightarrow> distinct (map fst (index_row src r idx))"
  by (auto simp: index_row_def Let_def keys_index_append)

lemma keys_index_rows:
  "fst ` set (index_rows src rs idx) = fst ` set idx \<union> (row_key ` set rs - {[]})"
  unfolding index_rows_def
  by (induction rs arbitrary: idx) (auto simp: keys_index_row)

lemma distinct_index_rows:
  "distinct (map fst idx) \<Longrightarrow> distinct (map fst (index_rows src rs idx))"
  unfolding index_rows_def
  by (induction rs arbitrary: idx) (auto simp: distinct_index_row)

lemma keys_product_index:
  "fst ` set (product_index sq pk tb) = indexed_names sq pk tb"
  by (auto simp: product_index_def keys_index_rows indexed_names_def normalized_names_def)

lemma distinct_product_index:
  "distinct (map fst (product_index sq pk tb))"
  by (simp add: product_index_def distinct_index_rows)

lemma entry_Nil: "entry [] k s = []"
  by (simp add: entry_def empty_sources_def)

lemma entry_product_index:
  "entry (product_index sq pk tb) k s =
     (if k \<noteq> [] then filter (\<lambda>r. row_key r = k) (rows_of sq pk tb s) else [])"
  by (cases s) (simp_all add: product_index_def entry_index_rows rows_of_def entry_Nil)

lemma map_of_product_index:
  "map_of (product_index sq pk tb) k =
     (if k \<in> indexed_names sq pk tb
      then Some (\<lambda>s. filter (\<lambda>r. row_key r = k) (rows_of sq pk tb s)) else None)"
proof (cases "k \<in> indexed_names sq pk tb")
  case False
  then have "k \<notin> fst ` set (product_index sq pk tb)"
    using keys_product_index [of sq pk tb] by simp
  then show ?thesis using False by (simp add: map_of_eq_None_iff)
next
  case True
  then have "k \<in> fst ` set (product_index sq pk tb)"
    using keys_product_index [of sq pk tb] by simp
  then obtain e where e: "map_of (product_index sq pk tb) k = Some e"
    by (metis map_of_eq_None_iff not_Some_eq)
  have k: "k \<noteq> []" using True by (simp add: indexed_names_def)
  have "e s = filter (\<lambda>r. row_key r = k) (rows_of sq pk tb s)" for s
    using entry_product_index [of sq pk tb k s] e k by (simp add: entry_def)
  then have "e = (\<lambda>s. filter (\<lambda>r. row_key r = k) (rows_of sq pk tb s))" by (rule ext)
  with e True show ?thesis by simp
qed

lemma first_row_filter: "first_row (filter P rs) = List.find P rs"
  by (induction rs) (auto simp: first_row_def)

section \<open>Properties of the merge loop\<close>

lemma best_rows_fn:
  "(\<lambda>s. List.find (\<lambda>r. row_key r = k) (rows_of sq pk tb s)) = best_rows sq pk tb k"
  by (simp add: best_rows_def first_seen_def fun_eq_iff)

lemma merged_record_unfold:
  "merged_record sq pk tb k =
     (if k \<in> indexed_names sq pk tb
      then (case base_record (best_rows sq pk tb k) of
              None \<Rightarrow> None
            | Some base \<Rightarrow>
                Some (add_metadata (\<lambda>s. filter (\<lambda>r. row_key r = k) (rows_of sq pk tb s))
                       (select_categories (best_rows sq pk tb k)
                         (select_seo (best_rows sq pk tb k)
                           (select_description (best_rows sq pk tb k) (base, []))))))
      else None)"
  by (simp add: merged_record_def map_of_product_index merge_product_def Let_def
                first_row_filter best_rows_fn)

lemma first_seen_Some: "first_seen k rs = Some r \<Longrightarrow> r \<in> set rs \<and> row_key r = k"
  unfolding first_seen_def by (induction rs) (auto split: if_splits)

lemma first_seen_None: "first_seen k rs = None \<longleftrightarrow> (\<forall>r \<in> set rs. row_key r \<noteq> k)"
  unfolding first_seen_def by (auto simp add: find_None_iff)

lemma base_record_cases:
  "base_record best = Some base \<longleftrightarrow>
     best Square = Some base \<or>
     (best Square = None \<and> best Palka = Some base) \<or>
     (best Square = None \<and> best Palka = None \<and> best Tbd = Some base)"
  by (auto simp: base_record_def split: option.splits)

lemma indexed_names_best:
  "k \<in> indexed_names sq pk tb \<Longrightarrow> \<exists>s. best_rows sq pk tb k s \<noteq> None"
proof -
  assume "k \<in> indexed_names sq pk tb"
  then obtain r where r: "r \<in> set sq \<union> set pk \<union> set tb" "row_key r = k"
    by (auto simp: indexed_names_def normalized_names_def)
  then consider "r \<in> set sq" | "r \<in> set pk" | "r \<in> set tb" by auto
  then show ?thesis
  proof cases
    case 1
    then have "best_rows sq pk tb k Square \<noteq> None"
      using r by (auto simp: best_rows_def rows_of_def first_seen_None)
    then show ?thesis by blast
  next
    case 2
    then have "best_rows sq pk tb k Palka \<noteq> None"
      using r by (auto simp: best_rows_def rows_of_def first_seen_None)
    then show ?thesis by blast
  next
    case 3
    then have "best_rows sq pk tb k Tbd \<noteq> None"
      using r by (auto simp: best_rows_def rows_of_def first_seen_None)
    then show ?thesis by blast
  qed
qed

lemma base_record_None: "base_record best = None \<longleftrightarrow> (\<forall>s. best s = None)"
proof
  assume "base_record best = None"
  then have "best Square = None \<and> best Palka = None \<and> best Tbd = None"
    by (auto simp: base_record_def split: option.splits)
  then show "\<forall>s. best s = None" by (metis source.exhaust)
next
  assume "\<forall>s. best s = None"
  then show "base_record best = None" by (simp add: base_record_def)
qed

lemma merged_record_defined:
  "k \<in> indexed_names sq pk tb \<Longrightarrow> \<exists>m. merged_record sq pk tb k = Some m"
  using indexed_names_best [of k sq pk tb] base_record_None [of "best_rows sq pk tb k"]
  by (auto simp: merged_record_unfold split: option.splits)

lemma merged_record_None: "k \<notin> indexed_names sq pk tb \<Longrightarrow> merged_record sq pk tb k = None"
  by (simp add: merged_record_unfold)

lemma finite_indexed_names: "finite (indexed_names sq pk tb)"
  by (simp add: indexed_names_def normalized_names_def)

lemma map_filter_assoc:
  "distinct (map fst idx) \<Longrightarrow> set xs \<subseteq> set idx \<Longrightarrow>
   List.map_filter (\<lambda>(k, e). f e) xs =
   List.map_filter (\<lambda>k. case map_of idx k of None \<Rightarrow> None | Some e \<Rightarrow> f e) (map fst xs)"
proof (induction xs)
  case Nil
  then show ?case by (simp add: List.map_filter_simps)
next
  case (Cons p xs)
  obtain k e where p: "p = (k, e)" by (cases p)
  have "(k, e) \<in> set idx" using Cons.prems p by simp
  then have "map_of idx k = Some e" using Cons.prems(1) by simp
  moreover have "List.map_filter (\<lambda>(k, e). f e) xs =
     List.map_filter (\<lambda>k. case map_of idx k of None \<Rightarrow> None | Some e \<Rightarrow> f e) (map fst xs)"
    using Cons by simp
  ultimately show ?case using p by (simp add: List.map_filter_simps split: option.splits)
qed

lemma map_fst_sort_key:
  "distinct (map fst idx) \<Longrightarrow> map fst (sort_key fst idx) = sorted_list_of_set (fst ` set idx)"
proof -
  assume d: "distinct (map fst idx)"
  have "distinct (map fst (sort_key fst idx))"
    using d by (simp add: distinct_map)
  moreover have "sorted (map fst (sort_key fst idx))" by (rule sorted_sort_key)
  moreover have "set (map fst (sort_key fst idx)) = fst ` set idx" by simp
  ultimately show ?thesis
    by (metis sorted_list_of_set.idem_if_sorted_distinct)
qed

lemma merged_catalog_records:
  "merged_catalog sq pk tb =
     List.map_filter (merged_record sq pk tb) (sorted_list_of_set (indexed_names sq pk tb))"
proof -
  let ?idx = "product_index sq pk tb"
  have "merged_catalog sq pk tb =
          List.map_filter (\<lambda>k. case map_of ?idx k of None \<Rightarrow> None | Some e \<Rightarrow> merge_product e)
            (map fst (sort_key fst ?idx))"
    unfolding merged_catalog_def
    by (rule map_filter_assoc) (simp_all add: distinct_product_index)
  also have "map fst (sort_key fst ?idx) = sorted_list_of_set (indexed_names sq pk tb)"
    using map_fst_sort_key [OF distinct_product_index, of sq pk tb] keys_product_index by simp
  finally show ?thesis by (simp add: merged_record_def [abs_def])
qed

lemma merged_catalog_map:
  "merged_catalog sq pk tb =
     map (\<lambda>k. the (merged_record sq pk tb k)) (sorted_list_of_set (indexed_names sq pk tb))"
proof -
  have "\<forall>k \<in> set (sorted_list_of_set (indexed_names sq pk tb)). merged_record sq pk tb k \<noteq> None"
    using merged_record_defined [of _ sq pk tb] finite_indexed_names [of sq pk tb] by auto
  then have "filter (\<lambda>k. merged_record sq pk tb k \<noteq> None) (sorted_list_of_set (indexed_names sq pk tb))
             = sorted_list_of_set (indexed_names sq pk tb)"
    by (simp add: filter_id_conv)
  then show ?thesis
    by (simp add: merged_catalog_records List.map_filter_def)
qed

lemma merged_catalog_member:
  "m \<in> set (merged_catalog sq pk tb) \<longleftrightarrow>
     (\<exists>k. merged_record sq pk tb k = Some m)"
proof
  assume "m \<in> set (merged_catalog sq pk tb)"
  then obtain k where "k \<in> indexed_names sq pk tb" "m = the (merged_record sq pk tb k)"
    using finite_indexed_names [of sq pk tb] by (auto simp: merged_catalog_map)
  then show "\<exists>k. merged_record sq pk tb k = Some m"
    using merged_record_defined [of k sq pk tb] by auto
next
  assume "\<exists>k. merged_record sq pk tb k = Some m"
  then obtain k where k: "merged_record sq pk tb k = Some m" by blast
  then have "k \<in> indexed_names sq pk tb" using merged_record_None [of k sq pk tb] by auto
  then show "m \<in> set (merged_catalog sq pk tb)"
    using k finite_indexed_names [of sq pk tb] by (force simp: merged_catalog_map)
qed

lemma row_key_ex_square: "row_key ex_square = ''candle''"
  by code_simp

lemma row_key_ex_palka: "row_key ex_palka = ''candle''"
  by code_simp

lemma row_key_ex_tbd: "row_key ex_tbd = ''candle''"
  by code_simp

lemma row_key_ex_blank: "row_key ex_blank = []"
  by code_simp

lemma select_description_frame:
  "f \<noteq> ''Description'' \<Longrightarrow> fst (select_description best st) f = fst st f"
  by (cases st) (simp add: select_description_def)

lemma select_seo_frame:
  "f \<noteq> ''SEO Title'' \<Longrightarrow> f \<noteq> ''SEO Description'' \<Longrightarrow> fst (select_seo best st) f = fst st f"
  by (cases st) (simp add: select_seo_def)

lemma select_categories_frame:
  "f \<noteq> ''Categories'' \<Longrightarrow> fst (select_categories best st) f = fst st f"
  by (cases st) (simp add: select_categories_def)

lemma add_metadata_frame:
  "f \<noteq> ''_merge_sources'' \<Longrightarrow> f \<noteq> ''_merge_notes'' \<Longrightarrow> add_metadata srcs st f = fst st f"
  by (cases st) (simp add: add_metadata_def)

lemma merge_steps_frame:
  "f \<notin> set merge_fields \<Longrightarrow>
   add_metadata srcs (select_categories best (select_seo best (select_description best (base, [])))) f
     = base f"
  by (simp add: merge_fields_def add_metadata_frame select_categories_frame select_seo_frame
                select_description_frame)

lemma base_first_seen:
  "base_record (best_rows sq pk tb k) = Some base \<longleftrightarrow>
     first_seen k sq = Some base \<or>
     (first_seen k sq = None \<and> first_seen k pk = Some base) \<or>
     (first_seen k sq = None \<and> first_seen k pk = None \<and> first_seen k tb = Some base)"
  by (simp add: base_record_cases best_rows_def rows_of_def)

lemma merged_record_base:
  assumes "merged_record sq pk tb k = Some m"
  shows "\<exists>base. base_record (best_rows sq pk tb k) = Some base \<and>
                (\<forall>f. f \<notin> set merge_fields \<longrightarrow> m f = base f) \<and>
                row_key base = k \<and> k \<noteq> []"
proof -
  from assms have k: "k \<in> indexed_names sq pk tb"
    using merged_record_None [of k sq pk tb] by auto
  then have ne: "k \<noteq> []" by (simp add: indexed_names_def)
  from assms k obtain base where
    b: "base_record (best_rows sq pk tb k) = Some base" and
    m: "m = add_metadata (\<lambda>s. filter (\<lambda>r. row_key r = k) (rows_of sq pk tb s))
              (select_categories (best_rows sq pk tb k)
                (select_seo (best_rows sq pk tb k)
                  (select_description (best_rows sq pk tb k) (base, []))))"
    by (auto simp: merged_record_unfold split: option.splits)
  have "row_key base = k"
    using b first_seen_Some [of k _ base] by (auto simp: base_first_seen)
  moreover have "\<forall>f. f \<notin> set merge_fields \<longrightarrow> m f = base f"
    using m merge_steps_frame by simp
  ultimately show ?thesis using b ne by blast
qed

lemma row_key_frame:
  "m ''Item Name'' = base ''Item Name'' \<Longrightarrow> row_key m = row_key base"
  by (simp add: row_key_def get_def)

lemma merged_record_key:
  assumes "merged_record sq pk tb k = Some m"
  shows "row_key m = k"
proof -
  obtain base where b: "\<forall>f. f \<notin> set merge_fields \<longrightarrow> m f = base f" "row_key base = k"
    using merged_record_base [OF assms] by blast
  have "''Item Name'' \<notin> set merge_fields" by (simp add: merge_fields_def)
  then have "m ''Item Name'' = base ''Item Name''" using b(1) by blast
  then have "row_key m = row_key base" by (rule row_key_frame)
  then show ?thesis using b(2) by simp
qed

text \<open>
  Claim C7. Every field of a merged record other than \<^verbatim>\<open>Description\<close>,
  \<^verbatim>\<open>SEO Title\<close>, \<^verbatim>\<open>SEO Description\<close>, \<^verbatim>\<open>Categories\<close>, \<^verbatim>\<open>_merge_sources\<close>
  and \<^verbatim>\<open>_merge_notes\<close> equals the same field of the base record, which is the first
  Square row with the record's key if there is one, else the first Palka row, else the
  first TBD row. Passthrough columns are never reconciled across sources.
\<close>

theorem passthrough_frame:
  assumes "m \<in> set (merged_catalog sq pk tb)"
  shows "\<exists>base.
           (first_seen (row_key m) sq = Some base \<or>
            (first_seen (row_key m) sq = None \<and> first_seen (row_key m) pk = Some base) \<or>
            (first_seen (row_key m) sq = None \<and> first_seen (row_key m) pk = None \<and>
             first_seen (row_key m) tb = Some base)) \<and>
           (\<forall>f. f \<notin> set merge_fields \<longrightarrow> m f = base f)"
proof -
  from assms obtain k where k: "merged_record sq pk tb k = Some m"
    by (auto simp: merged_catalog_member)
  have "row_key m = k" by (rule merged_record_key [OF k])
  then show ?thesis using merged_record_base [OF k] by (auto simp: base_first_seen)
qed

lemma row_key_nonempty:
  "row_key r \<noteq> [] \<Longrightarrow> \<exists>nm. r ''Item Name'' = Some (Str nm) \<and> clean_name (Str nm) = row_key r"
proof -
  assume ne: "row_key r \<noteq> []"
  show ?thesis
  proof (cases "r ''Item Name''")
    case None
    then have "row_key r = clean_name (Str [])" by (simp add: row_key_def get_def)
    then have "row_key r = []"
      by (simp add: clean_name_def isna_def str_def lower_def strip_def)
    then show ?thesis using ne by simp
  next
    case (Some c)
    show ?thesis
    proof (cases c)
      case NaN
      then have "row_key r = []" using Some by (simp add: row_key_def get_def clean_name_def isna_def)
      then show ?thesis using ne by simp
    next
      case (Str nm)
      then have "row_key r = clean_name (Str nm)" using Some by (simp add: row_key_def get_def)
      then show ?thesis using Some Str by simp
    qed
  qed
qed

text \<open>
  Claim C8. Every record of the merged output has a non-null \<^verbatim>\<open>Item Name\<close>: it is the
  item name, in its original casing, of the row that seeded the base record, and its
  cleaned form is not empty, because rows whose cleaned name is empty are never indexed.
\<close>

theorem item_name_non_null:
  assumes "m \<in> set (merged_catalog sq pk tb)"
  shows "\<exists>nm base.
           m ''Item Name'' = Some (Str nm) \<and> clean_name (Str nm) \<noteq> [] \<and>
           base ''Item Name'' = Some (Str nm) \<and>
           (first_seen (row_key m) sq = Some base \<or>
            (first_seen (row_key m) sq = None \<and> first_seen (row_key m) pk = Some base) \<or>
            (first_seen (row_key m) sq = None \<and> first_seen (row_key m) pk = None \<and>
             first_seen (row_key m) tb = Some base))"
proof -
  from assms obtain k where k: "merged_record sq pk tb k = Some m"
    by (auto simp: merged_catalog_member)
  have mk: "row_key m = k" by (rule merged_record_key [OF k])
  obtain base where b: "base_record (best_rows sq pk tb k) = Some base"
      "\<forall>f. f \<notin> set merge_fields \<longrightarrow> m f = base f" "row_key base = k" "k \<noteq> []"
    using merged_record_base [OF k] by blast
  obtain nm where nm: "base ''Item Name'' = Some (Str nm)" "clean_name (Str nm) = row_key base"
    using row_key_nonempty [of base] b(3,4) by auto
  have "''Item Name'' \<notin> set merge_fields" by (simp add: merge_fields_def)
  then have "m ''Item Name'' = Some (Str nm)" using b(2) nm(1) by simp
  then show ?thesis using nm b mk by (auto simp: base_first_seen)
qed

lemma ex_indexed_names: "indexed_names [ex_square] [ex_palka] [ex_tbd] = {''candle''}"
  by (simp add: indexed_names_def normalized_names_def row_key_ex_square row_key_ex_palka
                row_key_ex_tbd)

lemma ex_merged_catalog:
  "merged_catalog [ex_square] [ex_palka] [ex_tbd] =
     [the (merged_record [ex_square] [ex_palka] [ex_tbd] ''candle'')]"
  by (simp add: merged_catalog_map ex_indexed_names)

lemma ex_first_seen:
  "first_seen ''candle'' [ex_square] = Some ex_square"
  "first_seen ''candle'' [ex_palka] = Some ex_palka"
  "first_seen ''candle'' [ex_tbd] = Some ex_tbd"
  by (simp_all add: first_seen_def row_key_ex_square row_key_ex_palka row_key_ex_tbd)

lemma ex_merged_record:
  "merged_record [ex_square] [ex_palka] [ex_tbd] ''candle'' =
     Some (the (merged_record [ex_square] [ex_palka] [ex_tbd] ''candle''))"
  using merged_record_defined [of "''candle''" "[ex_square]" "[ex_palka]" "[ex_tbd]"]
  by (auto simp: ex_indexed_names)

theorem passthrough_frame_witness:
  "map (\<lambda>m. m ''SKU'') (merged_catalog [ex_square] [ex_palka] [ex_tbd]) = [Some (Str ''C-1'')]"
proof -
  let ?m = "the (merged_record [ex_square] [ex_palka] [ex_tbd] ''candle'')"
  have mem: "?m \<in> set (merged_catalog [ex_square] [ex_palka] [ex_tbd])"
    by (simp add: ex_merged_catalog)
  have key: "row_key ?m = ''candle''"
    by (rule merged_record_key [OF ex_merged_record])
  obtain base where
    b: "first_seen (row_key ?m) [ex_square] = Some base \<or>
        (first_seen (row_key ?m) [ex_square] = None \<and> first_seen (row_key ?m) [ex_palka] = Some base) \<or>
        (first_seen (row_key ?m) [ex_square] = None \<and> first_seen (row_key ?m) [ex_palka] = None \<and>
         first_seen (row_key ?m) [ex_tbd] = Some base)" and
    f: "\<forall>f. f \<notin> set merge_fields \<longrightarrow> ?m f = base f"
    using passthrough_frame [OF mem] by blast
  from b have "base = ex_square" by (simp add: key ex_first_seen)
  moreover have "''SKU'' \<notin> set merge_fields" by (simp add: merge_fields_def)
  ultimately have "?m ''SKU'' = ex_square ''SKU''" using f by blast
  then have "?m ''SKU'' = Some (Str ''C-1'')" by (simp add: ex_square_def)
  then show ?thesis by (simp add: ex_merged_catalog)
qed

theorem item_name_non_null_witness:
  "map (\<lambda>m. m ''Item Name'') (merged_catalog [ex_square] [ex_palka] [ex_tbd])
     = [Some (Str ''Candle'')]"
proof -
  let ?m = "the (merged_record [ex_square] [ex_palka] [ex_tbd] ''candle'')"
  have mem: "?m \<in> set (merged_catalog [ex_square] [ex_palka] [ex_tbd])"
    by (simp add: ex_merged_catalog)
  have key: "row_key ?m = ''candle''"
    by (rule merged_record_key [OF ex_merged_record])
  obtain nm base where
    n: "?m ''Item Name'' = Some (Str nm)" "base ''Item Name'' = Some (Str nm)" and
    b: "first_seen (row_key ?m) [ex_square] = Some base \<or>
        (first_seen (row_key ?m) [ex_square] = None \<and> first_seen (row_key ?m) [ex_palka] = Some base) \<or>
        (first_seen (row_key ?m) [ex_square] = None \<and> first_seen (row_key ?m) [ex_palka] = None \<and>
         first_seen (row_key ?m) [ex_tbd] = Some base)"
    using item_name_non_null [OF mem] by blast
  from b have "base = ex_square" by (simp add: key ex_first_seen)
  then have "nm = ''Candle''" using n(2) by (simp add: ex_square_def)
  then show ?thesis using n(1) by (simp add: ex_merged_catalog)
qed

lemma select_categories_value:
  "fst (select_categories best st) ''Categories'' =
     (if best Palka \<noteq> None \<and> \<not> isna (field_of (best Palka) ''Categories'')
      then Some (field_of (best Palka) ''Categories'')
      else if best Square \<noteq> None \<and> \<not> isna (field_of (best Square) ''Categories'')
      then Some (field_of (best Square) ''Categories'')
      else fst st ''Categories'')"
  by (cases st) (simp add: select_categories_def)

lemma merged_record_categories:
  assumes "merged_record sq pk tb k = Some m"
  shows "\<exists>base. base_record (best_rows sq pk tb k) = Some base \<and>
           m ''Categories'' =
             (if best_rows sq pk tb k Palka \<noteq> None \<and>
                 \<not> isna (field_of (best_rows sq pk tb k Palka) ''Categories'')
              then Some (field_of (best_rows sq pk tb k Palka) ''Categories'')
              else if best_rows sq pk tb k Square \<noteq> None \<and>
                      \<not> isna (field_of (best_rows sq pk tb k Square) ''Categories'')
              then Some (field_of (best_rows sq pk tb k Square) ''Categories'')
              else base ''Categories'')"
proof -
  let ?best = "best_rows sq pk tb k"
  from assms have k: "k \<in> indexed_names sq pk tb"
    using merged_record_None [of k sq pk tb] by auto
  from assms k obtain base where
    b: "base_record ?best = Some base" and
    m: "m = add_metadata (\<lambda>s. filter (\<lambda>r. row_key r = k) (rows_of sq pk tb s))
              (select_categories ?best (select_seo ?best (select_description ?best (base, []))))"
    by (auto simp: merged_record_unfold split: option.splits)
  have "m ''Categories'' =
          fst (select_categories ?best (select_seo ?best (select_description ?best (base, []))))
            ''Categories''"
    using m by (simp add: add_metadata_frame)
  moreover have "fst (select_seo ?best (select_description ?best (base, []))) ''Categories''
                   = base ''Categories''"
    by (simp add: select_seo_frame select_description_frame)
  ultimately show ?thesis using b by (simp add: select_categories_value)
qed

lemma field_of_Some: "r key = Some v \<Longrightarrow> field_of (Some r) key = v"
  by (simp add: field_of_def get_def)

text \<open>
  Claim C2, as the code has it. The merged record's \<^verbatim>\<open>Categories\<close> is Palka's value
  when Palka's row for the key has a non-null value; otherwise Square's value when
  Square's row has a non-null value; otherwise the category step assigns nothing and the
  field keeps the value copied from the base record: that is null when Square or Palka
  has a row, and TBD's own category when only TBD lists the product. The category step
  itself never reads TBD's row, so the first two cases hold whatever TBD contains.
  The rows are taken to carry the \<^verbatim>\<open>Categories\<close> column, which the merge inputs require.
\<close>

theorem categories_precedence:
  assumes "merged_record sq pk tb k = Some m"
  shows "(\<forall>p v. first_seen k pk = Some p \<and> p ''Categories'' = Some v \<and> v \<noteq> NaN
            \<longrightarrow> m ''Categories'' = Some v) \<and>
         (\<forall>a v. (first_seen k pk = None \<or>
                  (\<exists>p. first_seen k pk = Some p \<and> p ''Categories'' = Some NaN)) \<and>
                 first_seen k sq = Some a \<and> a ''Categories'' = Some v \<and> v \<noteq> NaN
            \<longrightarrow> m ''Categories'' = Some v) \<and>
         ((first_seen k pk = None \<or>
           (\<exists>p. first_seen k pk = Some p \<and> p ''Categories'' = Some NaN)) \<and>
          (first_seen k sq = None \<or>
           (\<exists>a. first_seen k sq = Some a \<and> a ''Categories'' = Some NaN))
            \<longrightarrow> (\<exists>base. base_record (best_rows sq pk tb k) = Some base \<and>
                        m ''Categories'' = base ''Categories'')) \<and>
         ((first_seen k pk = None \<or>
           (\<exists>p. first_seen k pk = Some p \<and> p ''Categories'' = Some NaN)) \<and>
          (first_seen k sq = None \<or>
           (\<exists>a. first_seen k sq = Some a \<and> a ''Categories'' = Some NaN)) \<and>
          (first_seen k sq \<noteq> None \<or> first_seen k pk \<noteq> None)
            \<longrightarrow> m ''Categories'' = Some NaN) \<and>
         (first_seen k sq = None \<and> first_seen k pk = None
            \<longrightarrow> (\<exists>t. first_seen k tb = Some t \<and> m ''Categories'' = t ''Categories''))"
proof -
  obtain base where b: "base_record (best_rows sq pk tb k) = Some base" and
    c: "m ''Categories'' =
             (if best_rows sq pk tb k Palka \<noteq> None \<and>
                 \<not> isna (field_of (best_rows sq pk tb k Palka) ''Categories'')
              then Some (field_of (best_rows sq pk tb k Palka) ''Categories'')
              else if best_rows sq pk tb k Square \<noteq> None \<and>
                      \<not> isna (field_of (best_rows sq pk tb k Square) ''Categories'')
              then Some (field_of (best_rows sq pk tb k Square) ''Categories'')
              else base ''Categories'')"
    using merged_record_categories [OF assms] by blast
  have P: "best_rows sq pk tb k Palka = first_seen k pk"
    and S: "best_rows sq pk tb k Square = first_seen k sq"
    by (simp_all add: best_rows_def rows_of_def)
  have bc: "first_seen k sq = Some base \<or>
     (first_seen k sq = None \<and> first_seen k pk = Some base) \<or>
     (first_seen k sq = None \<and> first_seen k pk = None \<and> first_seen k tb = Some base)"
    using b by (simp add: base_first_seen)
  have 1: "\<forall>p v. first_seen k pk = Some p \<and> p ''Categories'' = Some v \<and> v \<noteq> NaN
            \<longrightarrow> m ''Categories'' = Some v"
    using c by (auto simp: P field_of_Some isna_def split: cell.splits)
  have 2: "\<forall>a v. (first_seen k pk = None \<or>
                  (\<exists>p. first_seen k pk = Some p \<and> p ''Categories'' = Some NaN)) \<and>
                 first_seen k sq = Some a \<and> a ''Categories'' = Some v \<and> v \<noteq> NaN
            \<longrightarrow> m ''Categories'' = Some v"
    using c by (auto simp: P S field_of_Some isna_def split: cell.splits)
  have e: "m ''Categories'' = base ''Categories''"
    if "first_seen k pk = None \<or>
           (\<exists>p. first_seen k pk = Some p \<and> p ''Categories'' = Some NaN)"
       "first_seen k sq = None \<or>
           (\<exists>a. first_seen k sq = Some a \<and> a ''Categories'' = Some NaN)"
    using c that by (auto simp: P S field_of_Some isna_def)
  have 3: "(first_seen k pk = None \<or>
           (\<exists>p. first_seen k pk = Some p \<and> p ''Categories'' = Some NaN)) \<and>
          (first_seen k sq = None \<or>
           (\<exists>a. first_seen k sq = Some a \<and> a ''Categories'' = Some NaN))
            \<longrightarrow> (\<exists>base. base_record (best_rows sq pk tb k) = Some base \<and>
                        m ''Categories'' = base ''Categories'')"
    using e b by blast
  have 4: "(first_seen k pk = None \<or>
           (\<exists>p. first_seen k pk = Some p \<and> p ''Categories'' = Some NaN)) \<and>
          (first_seen k sq = None \<or>
           (\<exists>a. first_seen k sq = Some a \<and> a ''Categories'' = Some NaN)) \<and>
          (first_seen k sq \<noteq> None \<or> first_seen k pk \<noteq> None)
            \<longrightarrow> m ''Categories'' = Some NaN"
    using e bc by auto
  have 5: "first_seen k sq = None \<and> first_seen k pk = None
            \<longrightarrow> (\<exists>t. first_seen k tb = Some t \<and> m ''Categories'' = t ''Categories'')"
    using e bc by auto
  from 1 2 3 4 5 show ?thesis by blast
qed

theorem categories_precedence_witness:
  "map_option (\<lambda>m. m ''Categories'') (merged_record [ex_square] [ex_palka] [ex_tbd] ''candle'')
     = Some (Some (Str ''Crystals, Candles''))"
proof -
  have p: "ex_palka ''Categories'' = Some (Str ''Crystals, Candles'')"
    by (simp add: ex_palka_def)
  have "the (merged_record [ex_square] [ex_palka] [ex_tbd] ''candle'') ''Categories''
          = Some (Str ''Crystals, Candles'')"
    using categories_precedence [OF ex_merged_record] ex_first_seen(2) p by blast
  then show ?thesis using ex_merged_record by (metis option.simps(9))
qed

lemma ex_tbd_only_defined:
  "merged_record [] [] [ex_tbd] ''candle'' \<noteq> None"
  "merged_record [] [] [ex_tbd_toys] ''candle'' \<noteq> None"
proof -
  have "row_key ex_tbd_toys = ''candle''" by code_simp
  then have "''candle'' \<in> indexed_names [] [] [ex_tbd_toys]"
    by (simp add: indexed_names_def normalized_names_def)
  then show "merged_record [] [] [ex_tbd_toys] ''candle'' \<noteq> None"
    using merged_record_defined [of "''candle''" "[]" "[]" "[ex_tbd_toys]"] by auto
  have "''candle'' \<in> indexed_names [] [] [ex_tbd]"
    by (simp add: indexed_names_def normalized_names_def row_key_ex_tbd)
  then show "merged_record [] [] [ex_tbd] ''candle'' \<noteq> None"
    using merged_record_defined [of "''candle''" "[]" "[]" "[ex_tbd]"] by auto
qed

text \<open>
  The claim as stated leaves \<^verbatim>\<open>Categories\<close> unset in the third case and has source C
  never consulted. For a product that only TBD lists, the base record is TBD's row, so the
  merged record carries TBD's category, and it changes when TBD's category changes.
\<close>

theorem categories_precedence_counterexample:
  "merged_record [] [] [ex_tbd] ''candle'' \<noteq> None \<and>
   the (merged_record [] [] [ex_tbd] ''candle'') ''Categories'' = Some (Str ''Gifts'') \<and>
   merged_record [] [] [ex_tbd_toys] ''candle'' \<noteq> None \<and>
   the (merged_record [] [] [ex_tbd_toys] ''candle'') ''Categories'' = Some (Str ''Toys'')"
proof -
  have "the (merged_record [] [] [ex_tbd] ''candle'') ''Categories'' = Some (Str ''Gifts'')"
    by code_simp
  moreover have "the (merged_record [] [] [ex_tbd_toys] ''candle'') ''Categories''
                   = Some (Str ''Toys'')"
    by code_simp
  ultimately show ?thesis using ex_tbd_only_defined by simp
qed

lemma max_key_unfold:
  "max_key score =
     (if score Palka > score Square
      then (if score Tbd > score Palka then Tbd else Palka)
      else (if score Tbd > score Square then Tbd else Square))"
  by (simp add: max_key_def source_order_def)

lemma precedes_cases:
  "precedes a b \<longleftrightarrow> (a = Square \<and> b = Palka) \<or> (a = Square \<and> b = Tbd) \<or> (a = Palka \<and> b = Tbd)"
  by (cases a; cases b) (simp_all add: precedes_def source_order_def)

lemma max_key_max: "score s \<le> score (max_key score)"
  by (cases s) (simp_all add: max_key_unfold)

lemma max_key_first: "precedes s (max_key score) \<Longrightarrow> score s < score (max_key score)"
  by (cases s) (auto simp: max_key_unfold precedes_cases split: if_splits)

text \<open>
  Claim C5. The description winner is found by one scan over Square, Palka, TBD in that
  order which replaces the running best only by a strictly greater score. So the winner
  has the greatest score, every source before the winner has a strictly smaller score, and
  of two sources with equal scores the later one never wins. The winner is a function of
  the three candidates, hence the same on every run. When its score is positive its text
  becomes the merged \<^verbatim>\<open>Description\<close>.
\<close>

theorem description_tie_break:
  "(\<forall>s. desc_scores best s \<le> desc_scores best (best_desc_source best)) \<and>
   (\<forall>s. precedes s (best_desc_source best) \<longrightarrow>
        desc_scores best s < desc_scores best (best_desc_source best)) \<and>
   (\<forall>a b. precedes a b \<and> desc_scores best a = desc_scores best b \<longrightarrow>
        best_desc_source best \<noteq> b) \<and>
   (desc_scores best (best_desc_source best) > 0 \<longrightarrow>
      fst (select_description best (merged_row, merge_notes)) ''Description''
        = Some (descriptions best (best_desc_source best)))"
proof -
  have 1: "\<forall>s. desc_scores best s \<le> desc_scores best (best_desc_source best)"
    by (simp add: best_desc_source_def max_key_max)
  have 2: "\<forall>s. precedes s (best_desc_source best) \<longrightarrow>
        desc_scores best s < desc_scores best (best_desc_source best)"
    by (simp add: best_desc_source_def max_key_first)
  have 3: "\<forall>a b. precedes a b \<and> desc_scores best a = desc_scores best b \<longrightarrow>
        best_desc_source best \<noteq> b"
    using 2 by fastforce
  have 4: "desc_scores best (best_desc_source best) > 0 \<longrightarrow>
      fst (select_description best (merged_row, merge_notes)) ''Description''
        = Some (descriptions best (best_desc_source best))"
    by (simp add: select_description_def)
  from 1 2 3 4 show ?thesis by blast
qed

lemma ex_tie_scores:
  "desc_scores ex_tie Square = 60" "desc_scores ex_tie Palka = 60" "desc_scores ex_tie Tbd = 0"
  by (simp_all add: desc_scores_def descriptions_def field_of_def get_def ex_tie_def
                    evaluate_description_def isna_def str_def truthy_def Let_def)

theorem description_tie_break_witness:
  "precedes Square Palka \<and> desc_scores ex_tie Square = desc_scores ex_tie Palka \<and>
   best_desc_source ex_tie = Square"
proof -
  have p: "precedes Square Palka" by (simp add: precedes_cases)
  have e: "desc_scores ex_tie Square = desc_scores ex_tie Palka" by (simp add: ex_tie_scores)
  have "best_desc_source ex_tie \<noteq> Palka"
    using description_tie_break [of ex_tie] p e by blast
  moreover have "desc_scores ex_tie Square \<le> desc_scores ex_tie (best_desc_source ex_tie)"
    using description_tie_break [of ex_tie] by blast
  then have "best_desc_source ex_tie \<noteq> Tbd" by (auto simp: ex_tie_scores)
  ultimately have "best_desc_source ex_tie = Square"
    by (cases "best_desc_source ex_tie") simp_all
  then show ?thesis using p e by simp
qed

lemma row_key_ex_dup: "row_key ex_dup = ''candle''"
  by code_simp

lemma row_key_ex_lamp: "row_key ex_lamp = ''lamp''"
  by code_simp

lemma first_row_None: "first_row rs = None \<longleftrightarrow> rs = []"
  by (cases rs) (simp_all add: first_row_def)

lemma merge_product_cong:
  assumes "\<And>s. first_row (a s) = first_row (b s)"
  shows "merge_product a = merge_product b"
proof -
  have best: "(\<lambda>s. first_row (a s)) = (\<lambda>s. first_row (b s))"
    using assms by (simp add: fun_eq_iff)
  have "a s \<noteq> [] \<longleftrightarrow> b s \<noteq> []" for s
    using assms [of s] first_row_None [of "a s"] first_row_None [of "b s"] by simp
  then have "filter (\<lambda>k. a k \<noteq> []) source_order = filter (\<lambda>k. b k \<noteq> []) source_order"
    by simp
  then have "add_metadata a st = add_metadata b st" for st
    by (cases st) (simp add: add_metadata_def)
  then have am: "add_metadata a = add_metadata b" by (rule ext)
  show ?thesis
    unfolding merge_product_def Let_def best am ..
qed

text \<open>
  Claim C6. For every key of the index and every source, the row the merge uses is the
  first row of that source, in iteration order, whose cleaned name is the key; and the
  merged record is the one computed from these first rows alone, so every later row of
  the same source with the same key has no effect on the result.
\<close>

theorem first_seen_row_used:
  assumes "map_of (product_index sq pk tb) k = Some srcs"
  shows "(\<forall>s. first_row (srcs s) = first_seen k (rows_of sq pk tb s)) \<and>
         merge_product srcs =
           merge_product (\<lambda>s. case first_seen k (rows_of sq pk tb s) of
                                 None \<Rightarrow> [] | Some r \<Rightarrow> [r])"
proof -
  from assms have srcs: "srcs = (\<lambda>s. filter (\<lambda>r. row_key r = k) (rows_of sq pk tb s))"
    by (simp add: map_of_product_index split: if_splits)
  have 1: "first_row (srcs s) = first_seen k (rows_of sq pk tb s)" for s
    by (simp add: srcs first_row_filter first_seen_def)
  have 2: "first_row (case x of None \<Rightarrow> [] | Some r \<Rightarrow> [r]) = x" for x :: "row option"
    by (cases x) (simp_all add: first_row_def)
  have "first_row (srcs s) =
          first_row (case first_seen k (rows_of sq pk tb s) of None \<Rightarrow> [] | Some r \<Rightarrow> [r])" for s
    by (simp only: 1 2)
  then have "merge_product srcs =
           merge_product (\<lambda>s. case first_seen k (rows_of sq pk tb s) of
                                 None \<Rightarrow> [] | Some r \<Rightarrow> [r])"
    by (rule merge_product_cong)
  with 1 show ?thesis by blast
qed

lemma ex_dup_indexed: "''candle'' \<in> indexed_names [ex_square, ex_dup] [] []"
  by (simp add: indexed_names_def normalized_names_def row_key_ex_square row_key_ex_dup)

lemma ex_dup_first_seen:
  "first_seen ''candle'' (rows_of [ex_square, ex_dup] [] [] s) =
     (case s of Square \<Rightarrow> Some ex_square | Palka \<Rightarrow> None | Tbd \<Rightarrow> None)"
  by (cases s) (simp_all add: rows_of_def first_seen_def row_key_ex_square)

theorem first_seen_row_used_witness:
  "map_option (\<lambda>srcs. map_option (\<lambda>r. r ''SKU'') (first_row (srcs Square)))
     (map_of (product_index [ex_square, ex_dup] [] []) ''candle'') = Some (Some (Some (Str ''C-1'')))"
proof -
  let ?srcs = "\<lambda>s. filter (\<lambda>r. row_key r = ''candle'') (rows_of [ex_square, ex_dup] [] [] s)"
  have m: "map_of (product_index [ex_square, ex_dup] [] []) ''candle'' = Some ?srcs"
    by (simp add: map_of_product_index ex_dup_indexed)
  have "first_row (?srcs Square) = first_seen ''candle'' (rows_of [ex_square, ex_dup] [] [] Square)"
    using first_seen_row_used [OF m] by blast
  then have "first_row (?srcs Square) = Some ex_square"
    by (simp add: ex_dup_first_seen)
  then have "map_option (\<lambda>r. r ''SKU'') (first_row (?srcs Square)) = Some (Some (Str ''C-1''))"
    by (simp add: ex_square_def)
  then show ?thesis by (simp only: m option.map)
qed

lemma merged_record_sources:
  assumes "merged_record sq pk tb k = Some m"
  shows "m ''_merge_sources'' =
           Some (Str (join '', '' (map tag
             (filter (\<lambda>s. first_seen k (rows_of sq pk tb s) \<noteq> None) source_order))))"
proof -
  from assms have k: "k \<in> indexed_names sq pk tb"
    using merged_record_None [of k sq pk tb] by auto
  let ?srcs = "\<lambda>s. filter (\<lambda>r. row_key r = k) (rows_of sq pk tb s)"
  from assms k obtain base where
    "m = add_metadata ?srcs
           (select_categories (best_rows sq pk tb k)
             (select_seo (best_rows sq pk tb k)
               (select_description (best_rows sq pk tb k) (base, []))))"
    by (auto simp: merged_record_unfold split: option.splits)
  then obtain st where m: "m = add_metadata ?srcs st" by blast
  have "?srcs s \<noteq> [] \<longleftrightarrow> first_seen k (rows_of sq pk tb s) \<noteq> None" for s
    using first_row_None [of "?srcs s"] by (simp add: first_row_filter first_seen_def)
  then have "filter (\<lambda>s. ?srcs s \<noteq> []) source_order =
             filter (\<lambda>s. first_seen k (rows_of sq pk tb s) \<noteq> None) source_order"
    by simp
  then show ?thesis using m by (cases st) (simp add: add_metadata_def)
qed

lemma single_source_filter:
  assumes "P s" "\<And>s'. s' \<noteq> s \<Longrightarrow> \<not> P s'"
  shows "filter P source_order = [s]"
  using assms by (cases s) (auto simp: source_order_def)

lemma map_row_key_merged_catalog:
  "map row_key (merged_catalog sq pk tb) = sorted_list_of_set (indexed_names sq pk tb)"
proof -
  have "row_key (the (merged_record sq pk tb k)) = k"
    if "k \<in> set (sorted_list_of_set (indexed_names sq pk tb))" for k
  proof -
    from that have "k \<in> indexed_names sq pk tb"
      using finite_indexed_names [of sq pk tb] by simp
    then obtain m where m: "merged_record sq pk tb k = Some m"
      using merged_record_defined by blast
    then show ?thesis using merged_record_key [OF m] by simp
  qed
  then have "map (\<lambda>k. row_key (the (merged_record sq pk tb k)))
               (sorted_list_of_set (indexed_names sq pk tb))
             = sorted_list_of_set (indexed_names sq pk tb)"
    by (simp add: map_idI)
  then show ?thesis by (simp add: merged_catalog_map o_def)
qed

text \<open>
  Claim C4, as the code has it. The merged output has exactly one record per distinct
  non-empty cleaned product name occurring in any of the three sources: the cleaned names
  of the output records, in output order, are the sorted list of that set, without
  repetition, and the number of records is its cardinality. Rows whose name is null or
  blank after cleaning contribute no record. A record whose key occurs in exactly one
  source has \<^verbatim>\<open>_merge_sources\<close> equal to that one source tag.
\<close>

theorem union_of_keys:
  "map row_key (merged_catalog sq pk tb) = sorted_list_of_set (indexed_names sq pk tb) \<and>
   distinct (map row_key (merged_catalog sq pk tb)) \<and>
   length (merged_catalog sq pk tb) = card (indexed_names sq pk tb) \<and>
   (\<forall>m \<in> set (merged_catalog sq pk tb). \<forall>s.
      (\<forall>s'. s' \<noteq> s \<longrightarrow> first_seen (row_key m) (rows_of sq pk tb s') = None)
        \<longrightarrow> m ''_merge_sources'' = Some (Str (tag s)))"
proof -
  have 1: "map row_key (merged_catalog sq pk tb) = sorted_list_of_set (indexed_names sq pk tb)"
    by (rule map_row_key_merged_catalog)
  have 2: "distinct (map row_key (merged_catalog sq pk tb))"
    by (simp add: 1)
  have "length (map row_key (merged_catalog sq pk tb)) = card (indexed_names sq pk tb)"
    by (simp only: 1 sorted_list_of_set.length_sorted_key_list_of_set)
  then have 3: "length (merged_catalog sq pk tb) = card (indexed_names sq pk tb)"
    by simp
  have 4: "m ''_merge_sources'' = Some (Str (tag s))"
    if mem: "m \<in> set (merged_catalog sq pk tb)"
    and only: "\<forall>s'. s' \<noteq> s \<longrightarrow> first_seen (row_key m) (rows_of sq pk tb s') = None"
    for m s
  proof -
    from mem obtain k where k: "merged_record sq pk tb k = Some m"
      by (auto simp: merged_catalog_member)
    have mk: "row_key m = k" by (rule merged_record_key [OF k])
    have "k \<in> indexed_names sq pk tb" using k merged_record_None [of k sq pk tb] by auto
    then obtain s0 where "best_rows sq pk tb k s0 \<noteq> None"
      using indexed_names_best by blast
    then have s0: "first_seen k (rows_of sq pk tb s0) \<noteq> None" by (simp add: best_rows_def)
    then have "s0 = s" using only mk by auto
    then have "filter (\<lambda>s. first_seen k (rows_of sq pk tb s) \<noteq> None) source_order = [s]"
      using s0 only mk by (intro single_source_filter) auto
    then show ?thesis using merged_record_sources [OF k] by simp
  qed
  from 1 2 3 4 show ?thesis by blast
qed

lemma ex_union_names:
  "indexed_names [ex_square, ex_blank] [ex_palka] [ex_lamp] = {''candle'', ''lamp''}"
  by (auto simp add: indexed_names_def normalized_names_def row_key_ex_square row_key_ex_palka
                row_key_ex_blank row_key_ex_lamp)

theorem union_of_keys_witness:
  "length (merged_catalog [ex_square, ex_blank] [ex_palka] [ex_lamp]) = 2 \<and>
   map_option (\<lambda>m. m ''_merge_sources'')
     (merged_record [ex_square, ex_blank] [ex_palka] [ex_lamp] ''lamp'') = Some (Some (Str ''tbd''))"
proof -
  let ?sq = "[ex_square, ex_blank]" and ?pk = "[ex_palka]" and ?tb = "[ex_lamp]"
  have len: "length (merged_catalog ?sq ?pk ?tb) = card (indexed_names ?sq ?pk ?tb)"
    using union_of_keys [of ?sq ?pk ?tb] by blast
  have c: "card (indexed_names ?sq ?pk ?tb) = 2" by (simp add: ex_union_names)
  obtain m where m: "merged_record ?sq ?pk ?tb ''lamp'' = Some m"
    using merged_record_defined [of "''lamp''" ?sq ?pk ?tb] by (auto simp: ex_union_names)
  have mem: "m \<in> set (merged_catalog ?sq ?pk ?tb)"
    using m by (auto simp: merged_catalog_member)
  have mk: "row_key m = ''lamp''" by (rule merged_record_key [OF m])
  have only: "\<forall>s'. s' \<noteq> Tbd \<longrightarrow> first_seen (row_key m) (rows_of ?sq ?pk ?tb s') = None"
  proof (intro allI impI)
    fix s' :: source assume "s' \<noteq> Tbd"
    then show "first_seen (row_key m) (rows_of ?sq ?pk ?tb s') = None"
      by (cases s') (simp_all add: mk rows_of_def first_seen_def row_key_ex_square
                                   row_key_ex_blank row_key_ex_palka)
  qed
  have "m ''_merge_sources'' = Some (Str (tag Tbd))"
    using union_of_keys [of ?sq ?pk ?tb] mem only by blast
  then show ?thesis using len c m by simp
qed

text \<open>
  The claim as stated counts every distinct cleaned name, the empty one included: a
  Square export with one named row and one row without a name has two distinct cleaned
  names but yields one merged record.
\<close>

theorem union_of_keys_counterexample:
  "length (merged_catalog [ex_square, ex_blank] [] []) \<noteq>
     card (normalized_names [ex_square, ex_blank] [] [])"
proof -
  have "indexed_names [ex_square, ex_blank] [] [] = {''candle''}"
    by (auto simp add: indexed_names_def normalized_names_def row_key_ex_square row_key_ex_blank)
  then have "length (merged_catalog [ex_square, ex_blank] [] []) = 1"
    by (simp add: merged_catalog_map)
  moreover have "normalized_names [ex_square, ex_blank] [] [] = {''candle'', []}"
    by (auto simp add: normalized_names_def row_key_ex_square row_key_ex_blank)
  then have "card (normalized_names [ex_square, ex_blank] [] []) = 2" by simp
  ultimately show ?thesis by simp
qed

lemma ex_single_seo_scores:
  "seo_scores (best_rows [ex_square] [] [] ''candle'') Square = 106"
  "seo_scores (best_rows [ex_square] [] [] ''candle'') Palka = 200"
  "seo_scores (best_rows [ex_square] [] [] ''candle'') Tbd = 200"
  by code_simp+

text \<open>
  Claim C1 at a product that only Square lists, with an SEO title and no SEO description.
  \<^verbatim>\<open>evaluate_seo\<close> has no test for the empty string, and a source without a row is passed
  as two empty strings, so each absent source scores 200 where Square's real title scores
  106. Palka wins although it has no row: the merged record's SEO fields become empty
  strings and the notes record \<^verbatim>\<open>seo:palka\<close> for a record whose only source is Square.
\<close>

theorem seo_absent_source_outscores_title:
  "evaluate_seo (Str []) (Str []) = 200 \<and>
   seo_scores (best_rows [ex_square] [] [] ''candle'') Square = 106 \<and>
   seo_scores (best_rows [ex_square] [] [] ''candle'') Palka = 200 \<and>
   best_seo_source (best_rows [ex_square] [] [] ''candle'') = Palka \<and>
   ex_square ''SEO Title'' = Some (Str ''Candle'') \<and>
   map_option (\<lambda>m. (m ''SEO Title'', m ''SEO Description'', m ''_merge_sources'', m ''_merge_notes''))
     (merged_record [ex_square] [] [] ''candle'')
     = Some (Some (Str []), Some (Str []), Some (Str ''square''),
             Some (Str ''desc:square, seo:palka, cat:square''))"
proof -
  have 1: "evaluate_seo (Str []) (Str []) = 200"
    by (simp add: evaluate_seo_def isna_def str_def Let_def)
  have 2: "best_seo_source (best_rows [ex_square] [] [] ''candle'') = Palka"
    by (simp add: best_seo_source_def max_key_unfold ex_single_seo_scores)
  have 3: "ex_square ''SEO Title'' = Some (Str ''Candle'')"
    by (simp add: ex_square_def)
  have 4: "map_option (\<lambda>m. (m ''SEO Title'', m ''SEO Description'', m ''_merge_sources'', m ''_merge_notes''))
     (merged_record [ex_square] [] [] ''candle'')
     = Some (Some (Str []), Some (Str []), Some (Str ''square''),
             Some (Str ''desc:square, seo:palka, cat:square''))"
    by code_simp
  from 1 2 3 4 ex_single_seo_scores show ?thesis by simp
qed

lemma check_value_append: "check_value d fe errors = errors @ check_value d fe []"
  by (cases fe) (simp add: check_value_def Let_def)

lemma fold_check_value:
  "fold (check_value d) fes errors = errors @ concat (map (\<lambda>fe. check_value d fe []) fes)"
proof (induction fes arbitrary: errors)
  case Nil
  then show ?case by simp
next
  case (Cons fe fes)
  show ?case
    using Cons.IH [of "check_value d fe errors"] check_value_append [of d fe errors] by simp
qed

lemma validate_values_unfold:
  "validate_values d =
     (if filter (\<lambda>c. c \<notin> set (columns d)) REQUIRED_COLUMNS \<noteq> []
      then [MissingHeaders (sort (filter (\<lambda>c. c \<notin> set (columns d)) REQUIRED_COLUMNS))]
      else []) @
     concat (map (\<lambda>fe. check_value d fe []) REQUIRED_VALUES)"
  by (simp add: validate_values_def Let_def fold_check_value)

text \<open>
  Claim C9. The validator never stops at the first failure: the list it reports holds,
  together, the missing-headers problem naming every required column the table lacks, and
  for each of the four fixed columns either the unexpected-value problem, when the column
  is present and its expected literal is not among its distinct non-null stripped values,
  or the missing-column problem, when the column is absent.
\<close>

theorem validator_reports_all:
  "(\<forall>c \<in> set REQUIRED_COLUMNS. c \<notin> set (columns d) \<longrightarrow>
      (\<exists>hs. MissingHeaders hs \<in> set (validate_values d) \<and> c \<in> set hs)) \<and>
   (\<forall>(field, expected) \<in> set REQUIRED_VALUES.
      field \<in> set (columns d) \<and> expected \<notin> set (column_values d field) \<longrightarrow>
        UnexpectedValue expected field (column_values d field) \<in> set (validate_values d)) \<and>
   (\<forall>(field, expected) \<in> set REQUIRED_VALUES.
      field \<notin> set (columns d) \<longrightarrow> MissingColumn field \<in> set (validate_values d))"
proof -
  let ?missing = "filter (\<lambda>c. c \<notin> set (columns d)) REQUIRED_COLUMNS"
  have 1: "\<exists>hs. MissingHeaders hs \<in> set (validate_values d) \<and> c \<in> set hs"
    if "c \<in> set REQUIRED_COLUMNS" "c \<notin> set (columns d)" for c
  proof -
    from that have c: "c \<in> set ?missing" by simp
    then have "?missing \<noteq> []" by (metis empty_iff list.set(1))
    then have "MissingHeaders (sort ?missing) \<in> set (validate_values d)"
      by (simp add: validate_values_unfold)
    moreover have "c \<in> set (sort ?missing)" using c by simp
    ultimately show ?thesis by blast
  qed
  have sub: "set (check_value d fe []) \<subseteq> set (validate_values d)"
    if "fe \<in> set REQUIRED_VALUES" for fe
    using that by (auto simp: validate_values_unfold)
  have 2: "UnexpectedValue expected field (column_values d field) \<in> set (validate_values d)"
    if "(field, expected) \<in> set REQUIRED_VALUES" "field \<in> set (columns d)"
       "expected \<notin> set (column_values d field)" for field expected
  proof -
    have "UnexpectedValue expected field (column_values d field)
            \<in> set (check_value d (field, expected) [])"
      using that(2,3) by (simp add: check_value_def Let_def)
    then show ?thesis using sub [OF that(1)] by blast
  qed
  have 3: "MissingColumn field \<in> set (validate_values d)"
    if "(field, expected) \<in> set REQUIRED_VALUES" "field \<notin> set (columns d)" for field expected
  proof -
    have "MissingColumn field \<in> set (check_value d (field, expected) [])"
      using that(2) by (simp add: check_value_def)
    then show ?thesis using sub [OF that(1)] by blast
  qed
  from 1 2 3 show ?thesis by blast
qed

lemma ex_table_sold_online: "column_values ex_table ''Sold Online'' = [''N'']"
  by code_simp

lemma ex_table_columns:
  "''Token'' \<notin> set (columns ex_table)" "''Sold Online'' \<in> set (columns ex_table)"
  by (simp_all add: ex_table_def REQUIRED_COLUMNS_def)

theorem validator_reports_all_witness:
  "(\<exists>hs. MissingHeaders hs \<in> set (validate_values ex_table) \<and> ''Token'' \<in> set hs) \<and>
   UnexpectedValue ''Y'' ''Sold Online'' [''N''] \<in> set (validate_values ex_table)"
proof -
  have t: "''Token'' \<in> set REQUIRED_COLUMNS" by (simp add: REQUIRED_COLUMNS_def)
  have s: "(''Sold Online'', ''Y'') \<in> set REQUIRED_VALUES" by (simp add: REQUIRED_VALUES_def)
  have n: "''Y'' \<notin> set (column_values ex_table ''Sold Online'')"
    by (simp add: ex_table_sold_online)
  have "\<exists>hs. MissingHeaders hs \<in> set (validate_values ex_table) \<and> ''Token'' \<in> set hs"
    using validator_reports_all [of ex_table] t ex_table_columns(1) by blast
  moreover have "UnexpectedValue ''Y'' ''Sold Online'' (column_values ex_table ''Sold Online'')
                   \<in> set (validate_values ex_table)"
    using validator_reports_all [of ex_table] s ex_table_columns(2) n by blast
  ultimately show ?thesis by (simp add: ex_table_sold_online)
qed

section \<open>Properties of the validator and of the SEO patch\<close>

lemma first_index_None: "first_index P xs = None \<longleftrightarrow> (\<forall>x \<in> set xs. \<not> P x)"
  by (induction xs) auto

lemma first_index_Some:
  "i < length xs \<Longrightarrow> P (xs ! i) \<Longrightarrow> (\<forall>j<i. \<not> P (xs ! j)) \<Longrightarrow> first_index P xs = Some i"
proof (induction xs arbitrary: i)
  case Nil
  then show ?case by simp
next
  case (Cons x xs)
  show ?case
  proof (cases i)
    case 0
    then show ?thesis using Cons.prems by simp
  next
    case (Suc n)
    then have nx: "\<not> P x" using Cons.prems(3) by auto
    have "first_index P xs = Some n"
    proof (rule Cons.IH)
      show "n < length xs" using Cons.prems(1) Suc by simp
      show "P (xs ! n)" using Cons.prems(2) Suc by simp
      show "\<forall>j<n. \<not> P (xs ! j)"
      proof (intro allI impI)
        fix j assume "j < n"
        then have "Suc j < i" using Suc by simp
        then have "\<not> P ((x # xs) ! Suc j)" using Cons.prems(3) by blast
        then show "\<not> P (xs ! j)" by simp
      qed
    qed
    then show ?thesis using nx Suc by simp
  qed
qed

lemma length_set_cell: "length (rows (set_cell i c v d)) = length (rows d)"
  by (simp add: set_cell_def)

lemma columns_set_cell: "set (columns (set_cell i c v d)) = insert c (set (columns d))"
  by (auto simp: set_cell_def)

lemma cell_at_set_cell_same:
  "i < length (rows d) \<Longrightarrow> cell_at (set_cell i c v d) i c = v"
  by (simp add: cell_at_def set_cell_def get_def)

lemma wf_df_nth: "wf_df d \<Longrightarrow> j < length (rows d) \<Longrightarrow> dom (rows d ! j) \<subseteq> set (columns d)"
  by (simp add: wf_df_def list_all_length)

lemma cell_at_set_cell_other:
  assumes "wf_df d" "j < length (rows d)" "j \<noteq> i \<or> f \<noteq> c"
  shows "cell_at (set_cell i c v d) j f = cell_at d j f"
proof (cases "j = i")
  case True
  then have "f \<noteq> c" using assms(3) by simp
  then show ?thesis using True assms(2) by (simp add: cell_at_def set_cell_def get_def)
next
  case False
  show ?thesis
  proof (cases "f = c \<and> c \<notin> set (columns d)")
    case True
    then have "c \<notin> dom (rows d ! j)" using wf_df_nth [OF assms(1,2)] by auto
    then have "(rows d ! j) c = None" by auto
    then show ?thesis using True False assms(2)
      by (simp add: cell_at_def set_cell_def get_def)
  next
    case F: False
    then show ?thesis using False assms(2)
      by (auto simp add: cell_at_def set_cell_def get_def)
  qed
qed

lemma wf_set_cell:
  assumes "wf_df d" "i < length (rows d)"
  shows "wf_df (set_cell i c v d)"
proof -
  have "dom (rows (set_cell i c v d) ! j) \<subseteq> set (columns (set_cell i c v d))"
    if j: "j < length (rows d)" for j
  proof -
    have d: "dom (rows d ! j) \<subseteq> set (columns d)" using wf_df_nth [OF assms(1) j] .
    have di: "dom (rows d ! i) \<subseteq> set (columns d)" using wf_df_nth [OF assms(1,2)] .
    show ?thesis
    proof (cases "j = i")
      case True
      then show ?thesis using di j
        by (auto simp add: columns_set_cell) (auto simp add: set_cell_def split: if_splits)
    next
      case False
      then show ?thesis using d j
        by (auto simp add: columns_set_cell) (auto simp add: set_cell_def split: if_splits)
    qed
  qed
  then show ?thesis by (simp add: wf_df_def list_all_length length_set_cell)
qed


lemma patch_cells_frame:
  assumes "wf_df d" "i < length (rows d)" "j < length (rows d)" "j \<noteq> i \<or> f \<notin> set seo_fields"
  shows "cell_at (patch_cells i now u d) j f = cell_at d j f"
proof -
  let ?d1 = "set_cell i ''SEO Title'' (Str (seo_title u)) d"
  let ?d2 = "set_cell i ''SEO Description'' (Str (seo_description u)) ?d1"
  let ?d3 = "set_cell i ''_seo_keywords'' (Str (seo_keywords u)) ?d2"
  have ne: "j \<noteq> i \<or> f \<noteq> ''SEO Title''" "j \<noteq> i \<or> f \<noteq> ''SEO Description''"
           "j \<noteq> i \<or> f \<noteq> ''_seo_keywords''" "j \<noteq> i \<or> f \<noteq> ''_seo_updated''"
    using assms(4) by (auto simp: seo_fields_def)
  have w1: "wf_df ?d1" by (rule wf_set_cell [OF assms(1,2)])
  have l1: "length (rows ?d1) = length (rows d)" by (rule length_set_cell)
  have w2: "wf_df ?d2" using wf_set_cell [OF w1] assms(2) l1 by simp
  have l2: "length (rows ?d2) = length (rows d)" using l1 by (simp add: length_set_cell)
  have w3: "wf_df ?d3" using wf_set_cell [OF w2] assms(2) l2 by simp
  have l3: "length (rows ?d3) = length (rows d)" using l2 by (simp add: length_set_cell)
  have "cell_at (patch_cells i now u d) j f = cell_at ?d3 j f"
    unfolding patch_cells_def using cell_at_set_cell_other [OF w3 _ ne(4)] assms(3) l3 by simp
  also have "\<dots> = cell_at ?d2 j f"
    using cell_at_set_cell_other [OF w2 _ ne(3)] assms(3) l2 by simp
  also have "\<dots> = cell_at ?d1 j f"
    using cell_at_set_cell_other [OF w1 _ ne(2)] assms(3) l1 by simp
  also have "\<dots> = cell_at d j f"
    using cell_at_set_cell_other [OF assms(1) _ ne(1)] assms(3) by simp
  finally show ?thesis .
qed

lemma patch_cells_values:
  assumes "wf_df d" "i < length (rows d)"
  shows "cell_at (patch_cells i now u d) i ''SEO Title'' = Str (seo_title u)"
    and "cell_at (patch_cells i now u d) i ''SEO Description'' = Str (seo_description u)"
    and "cell_at (patch_cells i now u d) i ''_seo_keywords'' = Str (seo_keywords u)"
    and "cell_at (patch_cells i now u d) i ''_seo_updated'' = Str now"
proof -
  let ?d1 = "set_cell i ''SEO Title'' (Str (seo_title u)) d"
  let ?d2 = "set_cell i ''SEO Description'' (Str (seo_description u)) ?d1"
  let ?d3 = "set_cell i ''_seo_keywords'' (Str (seo_keywords u)) ?d2"
  have w1: "wf_df ?d1" by (rule wf_set_cell [OF assms(1,2)])
  have l1: "i < length (rows ?d1)" using assms(2) by (simp add: length_set_cell)
  have w2: "wf_df ?d2" by (rule wf_set_cell [OF w1 l1])
  have l2: "i < length (rows ?d2)" using l1 by (simp add: length_set_cell)
  have w3: "wf_df ?d3" by (rule wf_set_cell [OF w2 l2])
  have l3: "i < length (rows ?d3)" using l2 by (simp add: length_set_cell)
  show "cell_at (patch_cells i now u d) i ''_seo_updated'' = Str now"
    unfolding patch_cells_def by (rule cell_at_set_cell_same [OF l3])
  have "cell_at (patch_cells i now u d) i ''_seo_keywords'' = cell_at ?d3 i ''_seo_keywords''"
    unfolding patch_cells_def by (rule cell_at_set_cell_other [OF w3 l3]) simp
  then show "cell_at (patch_cells i now u d) i ''_seo_keywords'' = Str (seo_keywords u)"
    using cell_at_set_cell_same [OF l2] by simp
  have "cell_at (patch_cells i now u d) i ''SEO Description'' = cell_at ?d3 i ''SEO Description''"
    unfolding patch_cells_def by (rule cell_at_set_cell_other [OF w3 l3]) simp
  also have "\<dots> = cell_at ?d2 i ''SEO Description''"
    by (rule cell_at_set_cell_other [OF w2 l2]) simp
  finally show "cell_at (patch_cells i now u d) i ''SEO Description'' = Str (seo_description u)"
    using cell_at_set_cell_same [OF l1] by simp
  have "cell_at (patch_cells i now u d) i ''SEO Title'' = cell_at ?d3 i ''SEO Title''"
    unfolding patch_cells_def by (rule cell_at_set_cell_other [OF w3 l3]) simp
  also have "\<dots> = cell_at ?d2 i ''SEO Title''"
    by (rule cell_at_set_cell_other [OF w2 l2]) simp
  also have "\<dots> = cell_at ?d1 i ''SEO Title''"
    by (rule cell_at_set_cell_other [OF w1 l1]) simp
  finally show "cell_at (patch_cells i now u d) i ''SEO Title'' = Str (seo_title u)"
    using cell_at_set_cell_same [OF assms(2)] by simp
qed

lemma length_patch_cells: "length (rows (patch_cells i now u d)) = length (rows d)"
  by (simp add: patch_cells_def length_set_cell)

lemma apply_update_found:
  assumes "''Item Name'' \<in> set (columns (df st))"
    and "first_index (name_matches u) (rows (df st)) = Some i"
  shows "apply_update now u st =
           Inr \<lparr>df = patch_cells i now u (df st), updated_count = updated_count st + 1,
                printed = printed st @
                  [Updated (take 50 (name u)) (seo_title u) (take 80 (seo_description u))]\<rparr>"
  using assms by (simp add: apply_update_def patch_cells_def)

text \<open>
  Claim C10. For one entry of the update list, applied to a catalog that has the
  \<^verbatim>\<open>Item Name\<close> column: if no row's item name is string-equal to the entry's name, the
  catalog is unchanged and the miss is printed; otherwise only the first matching row is
  patched, its four SEO cells take the entry's values, and every other cell of the
  catalog, in that row and in every other row, shows what it showed before (a column
  created by the patch is empty in the other rows).
\<close>

theorem seo_patch_frame:
  assumes "''Item Name'' \<in> set (columns (df st))" and "wf_df (df st)"
  shows "((\<forall>r \<in> set (rows (df st)). \<not> name_matches u r) \<longrightarrow>
            apply_update now u st = Inr (st\<lparr>printed := printed st @ [NotFound (name u)]\<rparr>)) \<and>
         (\<forall>i. i < length (rows (df st)) \<and> name_matches u (rows (df st) ! i) \<and>
              (\<forall>j<i. \<not> name_matches u (rows (df st) ! j)) \<longrightarrow>
            (\<exists>st'. apply_update now u st = Inr st' \<and>
                   length (rows (df st')) = length (rows (df st)) \<and>
                   cell_at (df st') i ''SEO Title'' = Str (seo_title u) \<and>
                   cell_at (df st') i ''SEO Description'' = Str (seo_description u) \<and>
                   cell_at (df st') i ''_seo_keywords'' = Str (seo_keywords u) \<and>
                   cell_at (df st') i ''_seo_updated'' = Str now \<and>
                   (\<forall>j f. j < length (rows (df st)) \<and> (j \<noteq> i \<or> f \<notin> set seo_fields) \<longrightarrow>
                          cell_at (df st') j f = cell_at (df st) j f)))"
proof (intro conjI impI allI)
  assume "\<forall>r \<in> set (rows (df st)). \<not> name_matches u r"
  then have "first_index (name_matches u) (rows (df st)) = None"
    by (simp add: first_index_None)
  then show "apply_update now u st = Inr (st\<lparr>printed := printed st @ [NotFound (name u)]\<rparr>)"
    using assms(1) by (simp add: apply_update_def)
next
  fix i
  assume a: "i < length (rows (df st)) \<and> name_matches u (rows (df st) ! i) \<and>
              (\<forall>j<i. \<not> name_matches u (rows (df st) ! j))"
  then have fi: "first_index (name_matches u) (rows (df st)) = Some i"
    by (simp add: first_index_Some)
  let ?st' = "\<lparr>df = patch_cells i now u (df st), updated_count = updated_count st + 1,
                printed = printed st @
                  [Updated (take 50 (name u)) (seo_title u) (take 80 (seo_description u))]\<rparr>"
  have i: "i < length (rows (df st))" using a by simp
  have "apply_update now u st = Inr ?st'" by (rule apply_update_found [OF assms(1) fi])
  moreover have "length (rows (df ?st')) = length (rows (df st))"
    by (simp add: length_patch_cells)
  moreover have "cell_at (df ?st') i ''SEO Title'' = Str (seo_title u)"
    "cell_at (df ?st') i ''SEO Description'' = Str (seo_description u)"
    "cell_at (df ?st') i ''_seo_keywords'' = Str (seo_keywords u)"
    "cell_at (df ?st') i ''_seo_updated'' = Str now"
    using patch_cells_values [OF assms(2) i] by simp_all
  moreover have "\<forall>j f. j < length (rows (df st)) \<and> (j \<noteq> i \<or> f \<notin> set seo_fields) \<longrightarrow>
                          cell_at (df ?st') j f = cell_at (df st) j f"
    using patch_cells_frame [OF assms(2) i] by simp
  ultimately show "\<exists>st'. apply_update now u st = Inr st' \<and>
                   length (rows (df st')) = length (rows (df st)) \<and>
                   cell_at (df st') i ''SEO Title'' = Str (seo_title u) \<and>
                   cell_at (df st') i ''SEO Description'' = Str (seo_description u) \<and>
                   cell_at (df st') i ''_seo_keywords'' = Str (seo_keywords u) \<and>
                   cell_at (df st') i ''_seo_updated'' = Str now \<and>
                   (\<forall>j f. j < length (rows (df st)) \<and> (j \<noteq> i \<or> f \<notin> set seo_fields) \<longrightarrow>
                          cell_at (df st') j f = cell_at (df st) j f)"
    by blast
qed

lemma ex_catalog_wf: "wf_df ex_catalog"
  by (simp add: wf_df_def ex_catalog_def)

lemma ex_catalog_match:
  "\<not> name_matches ex_update (rows ex_catalog ! 0)"
  "name_matches ex_update (rows ex_catalog ! 1)"
  by (simp_all add: name_matches_def ex_update_def ex_catalog_def get_def)

theorem seo_patch_frame_witness:
  "(case apply_update ''2025-08-03T16:27:00'' ex_update ex_ustate of
      Inl e \<Rightarrow> False
    | Inr st' \<Rightarrow>
        cell_at (df st') 1 ''SEO Title'' = Str ''Hand poured candle'' \<and>
        cell_at (df st') 2 ''SEO Title'' = Str ''Old title'' \<and>
        cell_at (df st') 1 ''SKU'' = Str ''C-1'' \<and>
        cell_at (df st') 0 ''_seo_keywords'' = NaN)"
proof -
  have c: "''Item Name'' \<in> set (columns (df ex_ustate))"
    by (simp add: ex_ustate_def ex_catalog_def)
  have w: "wf_df (df ex_ustate)" by (simp add: ex_ustate_def ex_catalog_wf)
  have d: "df ex_ustate = ex_catalog" by (simp add: ex_ustate_def)
  have l: "length (rows ex_catalog) = 3" by (simp add: ex_catalog_def)
  have h: "(1::nat) < length (rows (df ex_ustate)) \<and>
           name_matches ex_update (rows (df ex_ustate) ! 1) \<and>
           (\<forall>j<1. \<not> name_matches ex_update (rows (df ex_ustate) ! j))"
    using ex_catalog_match by (simp add: d l)
  obtain st' where
    a: "apply_update ''2025-08-03T16:27:00'' ex_update ex_ustate = Inr st'" and
    t: "cell_at (df st') 1 ''SEO Title'' = Str (seo_title ex_update)" and
    f: "\<forall>j f. j < length (rows (df ex_ustate)) \<and> (j \<noteq> 1 \<or> f \<notin> set seo_fields) \<longrightarrow>
               cell_at (df st') j f = cell_at (df ex_ustate) j f"
    using seo_patch_frame [OF c w, of ex_update "''2025-08-03T16:27:00''"] h by blast
  have "cell_at (df st') 2 ''SEO Title'' = cell_at ex_catalog 2 ''SEO Title''"
    using f by (simp add: d l)
  moreover have "cell_at (df st') 1 ''SKU'' = cell_at ex_catalog 1 ''SKU''"
    using f by (simp add: d l seo_fields_def)
  moreover have "cell_at (df st') 0 ''_seo_keywords'' = cell_at ex_catalog 0 ''_seo_keywords''"
    using f by (simp add: d l)
  moreover have "cell_at ex_catalog 2 ''SEO Title'' = Str ''Old title''"
    "cell_at ex_catalog 1 ''SKU'' = Str ''C-1''" "cell_at ex_catalog 0 ''_seo_keywords'' = NaN"
    by (simp_all add: cell_at_def ex_catalog_def get_def)
  ultimately show ?thesis using a t by (simp add: ex_update_def)
qed

end
